theory Spec2Isabelle
  imports Complex_Main "HOL-Library.AList"
begin

section \<open>Large-image LOD rendering: shared data model\<close>

text \<open>
  The design document \<^verbatim>\<open>docs/image-lod- base.md\<close> carries the Python image processor
  (pyramid, chunking, metadata) and the TypeScript renderer (LOD selection, visible
  chunks, chunk loading, cache cleanup); the follow-up document carries the chunk
  predictor. JavaScript numbers are modelled as reals: apart from the results of
  \<^verbatim>\<open>Math.log2\<close>, which the engine rounds and which are therefore modelled on their
  own, every value that the theorems below evaluate is an integer or a dyadic fraction,
  which IEEE doubles represent exactly. Loop counters and chunk indices are integers.
\<close>

text \<open>\<^verbatim>\<open>interface LevelInfo\<close>; the Python \<^verbatim>\<open>level_metadata\<close> dict has the same keys.\<close>

record LevelInfo =
  lv_level :: int
  lv_width :: int
  lv_height :: int
  lv_scale :: real
  lv_chunk_size :: int
  lv_chunks_x :: int
  lv_chunks_y :: int
  lv_chunk_count :: int

text \<open>\<^verbatim>\<open>interface ChunkInfo\<close>.\<close>

record ChunkInfo =
  ck_level :: int
  ck_x :: int
  ck_y :: int

text \<open>\<^verbatim>\<open>interface Viewport\<close>.\<close>

record Viewport =
  vp_x :: real
  vp_y :: real
  vp_width :: real
  vp_height :: real
  vp_zoom :: real

section \<open>ImageRenderer: LOD selection and visible chunks\<close>

text \<open>
  \<^verbatim>\<open>calculateLOD(zoom)\<close>:
  \<^verbatim>\<open>targetLevel = Math.max(0, Math.floor(-Math.log2(zoom)));
  return Math.min(targetLevel, this.imageMetadata.levels.length - 1);\<close>
  ECMAScript leaves the result of \<^verbatim>\<open>Math.log2\<close> implementation-approximated: it is a
  double near the logarithm, not the logarithm. The function the engine computes is
  therefore the parameter \<open>log2\<close>. For \<open>zoom = 0\<close> the result is \<open>-Infinity\<close>, so the
  target is \<open>+Infinity\<close> and the minimum is the last level; for \<open>zoom < 0\<close> it is
  \<open>NaN\<close>, which \<open>Math.max\<close> and \<open>Math.min\<close> pass on: \<open>None\<close>.
\<close>

definition calculateLOD :: "(real \<Rightarrow> real) \<Rightarrow> LevelInfo list \<Rightarrow> real \<Rightarrow> int option" where
  "calculateLOD log2 levels zoom =
     (if 0 < zoom then
        (let targetLevel = max 0 \<lfloor>- log2 zoom\<rfloor>
         in Some (min targetLevel (int (length levels) - 1)))
      else if zoom = 0 then Some (int (length levels) - 1)
      else None)"

text \<open>
  An engine with a correctly rounded \<^verbatim>\<open>Math.log2\<close>: the result is the double nearest
  to the logarithm. A double has 53 significant bits, so the doubles around \<open>x\<close> are the
  multiples of \<open>ulp x\<close>. Overflow and subnormal numbers are left out (the logarithm of
  a positive double lies between -1075 and 1024), and a tie is rounded upwards where
  IEEE 754 rounds to even (no evaluated logarithm lies halfway between two doubles).
\<close>

definition ulp :: "real \<Rightarrow> real" where
  "ulp x = 2 powr (real_of_int \<lfloor>log 2 \<bar>x\<bar>\<rfloor> - 52)"

definition nearest_double :: "real \<Rightarrow> real" where
  "nearest_double x = (if x = 0 then 0 else real_of_int (round (x / ulp x)) * ulp x)"

definition log2_nearest :: "real \<Rightarrow> real" where
  "log2_nearest x = nearest_double (log 2 x)"


text \<open>\<^verbatim>\<open>this.imageMetadata.levels[level]\<close>: \<open>undefined\<close> outside the array.\<close>

definition level_at :: "LevelInfo list \<Rightarrow> int \<Rightarrow> LevelInfo option" where
  "level_at levels level =
     (if 0 \<le> level \<and> level < int (length levels) then Some (levels ! nat level) else None)"

text \<open>
  \<^verbatim>\<open>getVisibleChunks(viewport, level)\<close>. The two nested \<^verbatim>\<open>for\<close> loops run
  \<open>y\<close> from \<open>startY\<close> to \<open>endY\<close> and \<open>x\<close> from \<open>startX\<close> to \<open>endX\<close>, both
  bounds included, pushing \<open>{level, x, y}\<close>. A \<open>chunk_size\<close> of zero makes the
  quotients infinite or \<open>NaN\<close>; the model covers \<open>chunk_size \<noteq> 0\<close> and returns
  \<open>None\<close> otherwise.
\<close>

definition getVisibleChunks :: "LevelInfo list \<Rightarrow> Viewport \<Rightarrow> int \<Rightarrow> ChunkInfo list option" where
  "getVisibleChunks levels viewport level =
     (case level_at levels level of
        None \<Rightarrow> Some []
      | Some levelData \<Rightarrow>
          (let chunkSize = real_of_int (lv_chunk_size levelData);
               scale = lv_scale levelData;
               sx = vp_x viewport * scale;
               sy = vp_y viewport * scale;
               sw = vp_width viewport * scale;
               sh = vp_height viewport * scale;
               startX = max 0 \<lfloor>sx / chunkSize\<rfloor>;
               startY = max 0 \<lfloor>sy / chunkSize\<rfloor>;
               endX = min (lv_chunks_x levelData - 1) \<lceil>(sx + sw) / chunkSize\<rceil>;
               endY = min (lv_chunks_y levelData - 1) \<lceil>(sy + sh) / chunkSize\<rceil>
           in if lv_chunk_size levelData = 0 then None
              else Some (concat (map (\<lambda>y. map (\<lambda>x. \<lparr>ck_level = level, ck_x = x, ck_y = y\<rparr>)
                                               [startX..endX])
                                     [startY..endY]))))"

text \<open>
  The brute-force reference of the specification: a chunk of the level's grid is
  wanted exactly when its square \<open>[x\<cdot>c, (x+1)\<cdot>c) \<times> [y\<cdot>c, (y+1)\<cdot>c)\<close> meets the
  scaled viewport rectangle in a set of positive area.
\<close>

definition chunk_overlaps :: "LevelInfo \<Rightarrow> Viewport \<Rightarrow> int \<Rightarrow> int \<Rightarrow> bool" where
  "chunk_overlaps levelData viewport x y =
     (let c = real_of_int (lv_chunk_size levelData);
          s = lv_scale levelData;
          l = vp_x viewport * s; r = (vp_x viewport + vp_width viewport) * s;
          t = vp_y viewport * s; b = (vp_y viewport + vp_height viewport) * s
      in real_of_int x * c < r \<and> l < (real_of_int x + 1) * c \<and>
         real_of_int y * c < b \<and> t < (real_of_int y + 1) * c)"

definition brute_force_visible :: "LevelInfo \<Rightarrow> Viewport \<Rightarrow> int \<Rightarrow> ChunkInfo list" where
  "brute_force_visible levelData viewport level =
     concat (map (\<lambda>y. map (\<lambda>x. \<lparr>ck_level = level, ck_x = x, ck_y = y\<rparr>)
                        (filter (\<lambda>x. chunk_overlaps levelData viewport x y)
                                [0..lv_chunks_x levelData - 1]))
                 [0..lv_chunks_y levelData - 1])"

text \<open>The level list of the 4096\<times>4096 image with 512-pixel chunks (specification, section 8).\<close>

definition example_level :: "nat \<Rightarrow> LevelInfo" where
  "example_level k =
     \<lparr>lv_level = int k, lv_width = 4096 div 2 ^ k, lv_height = 4096 div 2 ^ k,
      lv_scale = 1 / 2 ^ k, lv_chunk_size = 512,
      lv_chunks_x = 8 div 2 ^ k, lv_chunks_y = 8 div 2 ^ k,
      lv_chunk_count = (8 div 2 ^ k) * (8 div 2 ^ k)\<rparr>"

definition example_levels :: "LevelInfo list" where
  "example_levels = map example_level [0, 1, 2, 3]"

definition example_viewport :: Viewport where
  "example_viewport = \<lparr>vp_x = 0, vp_y = 0, vp_width = 1024, vp_height = 1024, vp_zoom = 1\<rparr>"



section \<open>ImageProcessor: pyramid, chunks and metadata (Python)\<close>

text \<open>Python exceptions that the processing path can raise.\<close>

datatype py_error = ZeroDivisionError | IndexError

text \<open>An image, as far as the processor looks at it: its pixel dimensions.\<close>

record image =
  img_width :: int
  img_height :: int

text \<open>\<^verbatim>\<open>self.min_size = 256\<close>, fixed by the constructor.\<close>

definition min_size :: int where
  "min_size = 256"

text \<open>
  Modelled from the spec: \<^verbatim>\<open>resize_image(current, scale=0.5)\<close> is not part of the
  document; "each subsequent level halves width and height" is taken as integer halving.
\<close>

definition resize_image :: "image \<Rightarrow> image" where
  "resize_image current =
     \<lparr>img_width = img_width current div 2, img_height = img_height current div 2\<rparr>"

text \<open>The dict appended per level by \<^verbatim>\<open>generate_pyramid\<close>.\<close>

record pyramid_level =
  pl_level :: int
  pl_width :: int
  pl_height :: int
  pl_scale :: real
  pl_image :: image

text \<open>\<^verbatim>\<open>1.0 / (2 ** level)\<close>; a negative exponent makes \<^verbatim>\<open>2 ** level\<close> a float.\<close>

definition level_scale :: "int \<Rightarrow> real" where
  "level_scale level = (if 0 \<le> level then 1 / 2 ^ nat level else 2 ^ nat (- level))"

text \<open>
  \<^verbatim>\<open>while min(current.width, current.height) > self.min_size:
      levels.append({...}); current = self.resize_image(current, scale=0.5); level += 1\<close>
\<close>

function generate_pyramid_loop :: "image \<Rightarrow> int \<Rightarrow> pyramid_level list" where
  "generate_pyramid_loop current level =
     (if min (img_width current) (img_height current) > min_size then
        \<lparr>pl_level = level, pl_width = img_width current, pl_height = img_height current,
         pl_scale = level_scale level, pl_image = current\<rparr>
        # generate_pyramid_loop (resize_image current) (level + 1)
      else [])"
  by pat_completeness auto
termination
  by (relation "measure (\<lambda>(current, level). nat (min (img_width current) (img_height current)))")
     (auto simp: min_size_def resize_image_def min_def)

declare generate_pyramid_loop.simps [simp del]

definition generate_pyramid :: "image \<Rightarrow> pyramid_level list" where
  "generate_pyramid img = generate_pyramid_loop img 0"

text \<open>One chunk dict of \<^verbatim>\<open>split_into_chunks\<close>; \<^verbatim>\<open>data\<close> is the crop of exactly this rectangle.\<close>

record chunk =
  ch_level :: int
  ch_x :: int
  ch_y :: int
  ch_actual_x :: int
  ch_actual_y :: int
  ch_width :: int
  ch_height :: int

text \<open>\<^verbatim>\<open>math.ceil(a / b)\<close> for a non-zero divisor.\<close>

definition ceil_div :: "int \<Rightarrow> int \<Rightarrow> int" where
  "ceil_div a b = \<lceil>real_of_int a / real_of_int b\<rceil>"

text \<open>
  The body of the loop over one level: the two nested \<^verbatim>\<open>range\<close> loops, \<open>y\<close>
  outermost (\<open>img\<close> is the source's local \<^verbatim>\<open>image\<close>).
\<close>

definition level_chunks :: "int \<Rightarrow> pyramid_level \<Rightarrow> chunk list" where
  "level_chunks chunk_size level_data =
     (let img = pl_image level_data;
          chunks_x = ceil_div (img_width img) chunk_size;
          chunks_y = ceil_div (img_height img) chunk_size
      in concat (map (\<lambda>y. map (\<lambda>x.
           (let actual_x = x * chunk_size; actual_y = y * chunk_size
            in \<lparr>ch_level = pl_level level_data, ch_x = x, ch_y = y,
                ch_actual_x = actual_x, ch_actual_y = actual_y,
                ch_width = min chunk_size (img_width img - actual_x),
                ch_height = min chunk_size (img_height img - actual_y)\<rparr>))
           [0..chunks_x - 1]) [0..chunks_y - 1]))"

text \<open>
  \<^verbatim>\<open>split_into_chunks\<close>: the result dict keeps insertion order and is keyed by level
  (\<open>AList.update\<close> replaces in place or appends, as a dict assignment does). The float
  division raises \<open>ZeroDivisionError\<close> for a zero chunk size.
\<close>

fun split_loop :: "int \<Rightarrow> pyramid_level list \<Rightarrow> (int \<times> chunk list) list
    \<Rightarrow> py_error + (int \<times> chunk list) list" where
  "split_loop chunk_size [] chunks = Inr chunks"
| "split_loop chunk_size (level_data # rest) chunks =
     (if chunk_size = 0 then Inl ZeroDivisionError
      else split_loop chunk_size rest
             (AList.update (pl_level level_data) (level_chunks chunk_size level_data) chunks))"

definition split_into_chunks :: "int \<Rightarrow> pyramid_level list \<Rightarrow> py_error + (int \<times> chunk list) list" where
  "split_into_chunks chunk_size pyramid_levels = split_loop chunk_size pyramid_levels []"

text \<open>
  What the run reads from outside: the image \<^verbatim>\<open>load_image\<close> returns, the identifier
  \<^verbatim>\<open>generate_image_id()\<close> returns, \<^verbatim>\<open>self.start_time\<close> and the clock reading
  \<^verbatim>\<open>time.time()\<close> taken when the metadata is built.
\<close>

record run_env =
  en_image :: image
  en_image_id :: string
  en_start_time :: real
  en_time :: real

text \<open>The dict returned by \<^verbatim>\<open>generate_metadata\<close>.\<close>

record metadata =
  md_image_id :: string
  md_levels :: "LevelInfo list"
  md_total_chunks :: int
  md_chunk_size :: int
  md_processing_time :: real

text \<open>
  One iteration of the loop of \<^verbatim>\<open>generate_metadata\<close>. \<^verbatim>\<open>chunk_list[0]\<close> raises
  \<open>IndexError\<close> on an empty list, before the conditional expressions are reached.
\<close>

definition level_metadata :: "int \<Rightarrow> int \<times> chunk list \<Rightarrow> py_error + LevelInfo" where
  "level_metadata chunk_size entry =
     (case entry of (level, chunk_list) \<Rightarrow>
        (case chunk_list of
           [] \<Rightarrow> Inl IndexError
         | level_info # _ \<Rightarrow>
             (let max_x = Max (set (map ch_x chunk_list));
                  max_y = Max (set (map ch_y chunk_list))
              in Inr \<lparr>lv_level = level,
                      lv_width = ch_actual_x level_info + ch_width level_info,
                      lv_height = ch_actual_y level_info + ch_height level_info,
                      lv_scale = level_scale level,
                      lv_chunk_size = chunk_size,
                      lv_chunks_x = max_x + 1,
                      lv_chunks_y = max_y + 1,
                      lv_chunk_count = int (length chunk_list)\<rparr>)))"

fun metadata_loop :: "int \<Rightarrow> (int \<times> chunk list) list \<Rightarrow> py_error + LevelInfo list \<times> int" where
  "metadata_loop chunk_size [] = Inr ([], 0)"
| "metadata_loop chunk_size (entry # rest) =
     (case level_metadata chunk_size entry of
        Inl e \<Rightarrow> Inl e
      | Inr level_md \<Rightarrow>
          (case metadata_loop chunk_size rest of
             Inl e \<Rightarrow> Inl e
           | Inr (levels, total_chunks) \<Rightarrow>
               Inr (level_md # levels, int (length (snd entry)) + total_chunks)))"

definition generate_metadata :: "int \<Rightarrow> run_env \<Rightarrow> (int \<times> chunk list) list \<Rightarrow> py_error + metadata" where
  "generate_metadata chunk_size env chunks_data =
     (case metadata_loop chunk_size chunks_data of
        Inl e \<Rightarrow> Inl e
      | Inr (levels, total_chunks) \<Rightarrow>
          Inr \<lparr>md_image_id = en_image_id env, md_levels = levels,
               md_total_chunks = total_chunks, md_chunk_size = chunk_size,
               md_processing_time = en_time env - en_start_time env\<rparr>)"

text \<open>
  \<^verbatim>\<open>process_large_image\<close>. The returned pair is the metadata together with the chunk
  partitioning handed to \<^verbatim>\<open>save_chunks\<close>.
\<close>

definition process_large_image :: "int \<Rightarrow> run_env
    \<Rightarrow> py_error + metadata \<times> (int \<times> chunk list) list" where
  "process_large_image chunk_size env =
     (let original_image = en_image env;
          pyramid_levels = generate_pyramid original_image
      in case split_into_chunks chunk_size pyramid_levels of
           Inl e \<Rightarrow> Inl e
         | Inr chunks_data \<Rightarrow>
             (case generate_metadata chunk_size env chunks_data of
                Inl e \<Rightarrow> Inl e
              | Inr md \<Rightarrow> Inr (md, chunks_data)))"

text \<open>The 4096\<times>4096 source image of the specification's example, and two runs over it.\<close>

definition example_image :: image where
  "example_image = \<lparr>img_width = 4096, img_height = 4096\<rparr>"

definition example_env :: "real \<Rightarrow> run_env" where
  "example_env t =
     \<lparr>en_image = example_image, en_image_id = ''img'', en_start_time = 0, en_time = t\<rparr>"

text \<open>A 1000\<times>1000 source image: its halvings 500 and 250 do not meet the minimum of 256.\<close>

definition image_1000 :: image where
  "image_1000 = \<lparr>img_width = 1000, img_height = 1000\<rparr>"

text \<open>The fields of a level entry that the grid invariant relates.\<close>

definition grid_fields :: "LevelInfo \<Rightarrow> int \<times> int \<times> int \<times> int \<times> int" where
  "grid_fields l = (lv_width l, lv_height l, lv_chunks_x l, lv_chunks_y l, lv_chunk_count l)"

section \<open>ImageRenderer: chunk keys, loading and drawing\<close>

text \<open>Decimal rendering of an integer inside a template literal.\<close>

definition digit_char :: "nat \<Rightarrow> char" where
  "digit_char d = char_of (48 + d)"

fun digits :: "nat \<Rightarrow> string" where
  "digits n = (if n < 10 then [digit_char n] else digits (n div 10) @ [digit_char (n mod 10)])"

declare digits.simps [simp del]

definition string_of_int :: "int \<Rightarrow> string" where
  "string_of_int i = (if i < 0 then CHR ''-'' # digits (nat (- i)) else digits (nat i))"

text \<open>\<^verbatim>\<open>getChunkKey(chunk) = `${chunk.level}-${chunk.x}-${chunk.y}`\<close>.\<close>

definition getChunkKey :: "ChunkInfo \<Rightarrow> string" where
  "getChunkKey chunk =
     string_of_int (ck_level chunk) @ ''-'' @ string_of_int (ck_x chunk) @ ''-''
       @ string_of_int (ck_y chunk)"

text \<open>A \<^verbatim>\<open>WebGLTexture\<close> is an opaque handle.\<close>

type_synonym WebGLTexture = nat

text \<open>
  The renderer's mutable fields: \<^verbatim>\<open>chunkCache: Map<string, WebGLTexture>\<close> as an
  association list in insertion order and \<^verbatim>\<open>loadingChunks: Set<string>\<close>. Two more
  fields make the network visible: \<open>fetched\<close> logs every call of \<^verbatim>\<open>fetch\<close>, and
  \<open>in_flight\<close> holds the key of every \<^verbatim>\<open>loadChunk\<close> call that is suspended at an
  \<^verbatim>\<open>await\<close> (one element per suspended call).
\<close>

record ImageRenderer =
  chunkCache :: "(string \<times> WebGLTexture) list"
  loadingChunks :: "string set"
  fetched :: "string list"
  in_flight :: "string list"

definition initial_renderer :: ImageRenderer where
  "initial_renderer = \<lparr>chunkCache = [], loadingChunks = {}, fetched = [], in_flight = []\<rparr>"

text \<open>\<^verbatim>\<open>chunkCache.has(key)\<close>.\<close>

definition cache_has :: "(string \<times> WebGLTexture) list \<Rightarrow> string \<Rightarrow> bool" where
  "cache_has cache key = (map_of cache key \<noteq> None)"

text \<open>
  \<^verbatim>\<open>loadChunk\<close> up to its first \<^verbatim>\<open>await\<close>: the early return, the insertion into
  \<^verbatim>\<open>loadingChunks\<close> and the call of \<^verbatim>\<open>fetch\<close>. JavaScript runs this part without
  interruption.
\<close>

definition loadChunk :: "ImageRenderer \<Rightarrow> ChunkInfo \<Rightarrow> ImageRenderer" where
  "loadChunk r chunk =
     (let key = getChunkKey chunk
      in if cache_has (chunkCache r) key \<or> key \<in> loadingChunks r then r
         else r\<lparr>loadingChunks := insert key (loadingChunks r),
                fetched := fetched r @ [key],
                in_flight := in_flight r @ [key]\<rparr>)"

text \<open>
  How the awaited part ends: the response is fine and the texture is created, or
  \<^verbatim>\<open>fetch\<close> rejects, or \<^verbatim>\<open>response.ok\<close> is false, or decoding the blob throws.
\<close>

datatype fetch_outcome = Loaded WebGLTexture | NetworkError | HttpError | DecodeError

text \<open>How the promise returned by an \<^verbatim>\<open>async\<close> function settles.\<close>

datatype promise_state = Fulfilled | Rejected

text \<open>
  The rest of \<^verbatim>\<open>loadChunk\<close> for the suspended call on \<open>key\<close>: on success
  \<^verbatim>\<open>chunkCache.set(key, texture)\<close>; every exception of the \<^verbatim>\<open>try\<close> block lands in
  the \<^verbatim>\<open>catch\<close>, which only logs; \<^verbatim>\<open>finally\<close> deletes the key from
  \<^verbatim>\<open>loadingChunks\<close>. The result is \<open>None\<close> when no call on \<open>key\<close> is suspended.
\<close>

definition loadChunk_resume :: "ImageRenderer \<Rightarrow> string \<Rightarrow> fetch_outcome
    \<Rightarrow> (ImageRenderer \<times> promise_state) option" where
  "loadChunk_resume r key outcome =
     (if key \<notin> set (in_flight r) then None
      else
        (let r1 = r\<lparr>in_flight := remove1 key (in_flight r)\<rparr>;
             r2 = (case outcome of
                     Loaded texture \<Rightarrow> r1\<lparr>chunkCache := AList.update key texture (chunkCache r1)\<rparr>
                   | _ \<Rightarrow> r1)
         in Some (r2\<lparr>loadingChunks := loadingChunks r2 - {key}\<rparr>, Fulfilled)))"

text \<open>
  \<^verbatim>\<open>loadMissingChunks\<close>: the filter runs over the whole array first, then
  \<^verbatim>\<open>loadChunk\<close> is called on every chunk that passed.
\<close>

definition loadMissingChunks :: "ImageRenderer \<Rightarrow> ChunkInfo list \<Rightarrow> ImageRenderer" where
  "loadMissingChunks r chunks =
     fold (\<lambda>chunk r'. loadChunk r' chunk)
          (filter (\<lambda>chunk. \<not> cache_has (chunkCache r) (getChunkKey chunk)
                           \<and> getChunkKey chunk \<notin> loadingChunks r) chunks)
          r"

text \<open>
  What can happen to a renderer: a call of \<^verbatim>\<open>loadChunk\<close>, a call of
  \<^verbatim>\<open>loadMissingChunks\<close>, and the completion of a suspended load.
\<close>

datatype event =
    Call ChunkInfo
  | CallMissing "ChunkInfo list"
  | Resume string fetch_outcome

fun step :: "ImageRenderer \<Rightarrow> event \<Rightarrow> ImageRenderer option" where
  "step r (Call chunk) = Some (loadChunk r chunk)"
| "step r (CallMissing chunks) = Some (loadMissingChunks r chunks)"
| "step r (Resume key outcome) = map_option fst (loadChunk_resume r key outcome)"

fun run :: "ImageRenderer \<Rightarrow> event list \<Rightarrow> ImageRenderer option" where
  "run r [] = Some r"
| "run r (e # es) = (case step r e of None \<Rightarrow> None | Some r' \<Rightarrow> run r' es)"

text \<open>The number of loads of \<open>key\<close> whose fetch has been issued and has not completed.\<close>

definition fetches_in_flight :: "ImageRenderer \<Rightarrow> string \<Rightarrow> nat" where
  "fetches_in_flight r key = count_list (in_flight r) key"

text \<open>The outcomes that send \<^verbatim>\<open>loadChunk\<close> into its \<^verbatim>\<open>catch\<close> block.\<close>

definition is_failure :: "fetch_outcome \<Rightarrow> bool" where
  "is_failure outcome = (case outcome of Loaded texture \<Rightarrow> False | _ \<Rightarrow> True)"

text \<open>
  What every reachable renderer state satisfies: the suspended loads are pairwise on
  different keys, they are exactly the keys of \<^verbatim>\<open>loadingChunks\<close>, and no such key
  is cached.
\<close>

definition renderer_inv :: "ImageRenderer \<Rightarrow> bool" where
  "renderer_inv r =
     (distinct (in_flight r) \<and> set (in_flight r) = loadingChunks r
      \<and> (\<forall>key\<in>loadingChunks r. \<not> cache_has (chunkCache r) key))"

definition example_chunk :: ChunkInfo where
  "example_chunk = \<lparr>ck_level = 0, ck_x = 1, ck_y = 2\<rparr>"

definition example_events :: "event list" where
  "example_events =
     [Call example_chunk, Call example_chunk, Resume ''0-1-2'' HttpError,
      CallMissing [example_chunk, example_chunk]]"

text \<open>
  One draw call of \<^verbatim>\<open>renderChunks\<close>: the bound texture, the two uniforms and the
  opacity.
\<close>

record DrawCall =
  dc_chunk :: ChunkInfo
  dc_texture :: WebGLTexture
  dc_chunkOffset :: "int \<times> int"
  dc_chunkSize :: "int \<times> int"
  dc_opacity :: real

datatype js_error = TypeError

text \<open>
  The loop of \<^verbatim>\<open>renderChunks\<close>: a chunk without a texture is skipped
  (\<^verbatim>\<open>if (!texture) continue\<close>); reading \<^verbatim>\<open>levelData.chunk_size\<close> of a missing level
  throws. The result is the draw calls issued, and the exception that ended the loop, if
  one did.
\<close>

fun renderChunks :: "LevelInfo list \<Rightarrow> (string \<times> WebGLTexture) list \<Rightarrow> ChunkInfo list
    \<Rightarrow> DrawCall list \<times> js_error option" where
  "renderChunks levels cache [] = ([], None)"
| "renderChunks levels cache (chunk # rest) =
     (case map_of cache (getChunkKey chunk) of
        None \<Rightarrow> renderChunks levels cache rest
      | Some texture \<Rightarrow>
          (case level_at levels (ck_level chunk) of
             None \<Rightarrow> ([], Some TypeError)
           | Some levelData \<Rightarrow>
               (let draw = \<lparr>dc_chunk = chunk, dc_texture = texture,
                            dc_chunkOffset = (ck_x chunk * lv_chunk_size levelData,
                                              ck_y chunk * lv_chunk_size levelData),
                            dc_chunkSize = (lv_chunk_size levelData, lv_chunk_size levelData),
                            dc_opacity = 1\<rparr>;
                    (draws, err) = renderChunks levels cache rest
                in (draw # draws, err))))"

section \<open>MemoryManager: cache cleanup\<close>

text \<open>
  The fields of \<^verbatim>\<open>MemoryManager\<close>; \<^verbatim>\<open>accessTimes: Map<string, number>\<close> keeps
  insertion order, which the stable sort falls back on for equal times.
\<close>

record MemoryManager =
  maxCacheSize :: int
  currentCacheSize :: int
  accessTimes :: "(string \<times> int) list"

text \<open>The field initialisers: \<^verbatim>\<open>100 * 1024 * 1024\<close>, \<^verbatim>\<open>0\<close> and an empty map.\<close>

definition new_MemoryManager :: MemoryManager where
  "new_MemoryManager =
     \<lparr>maxCacheSize = 100 * 1024 * 1024, currentCacheSize = 0, accessTimes = []\<rparr>"

text \<open>\<^verbatim>\<open>recordAccess(chunkKey)\<close>, with the reading of \<^verbatim>\<open>Date.now()\<close> as an argument.\<close>

definition recordAccess :: "MemoryManager \<Rightarrow> string \<Rightarrow> int \<Rightarrow> MemoryManager" where
  "recordAccess mm chunkKey now = mm\<lparr>accessTimes := AList.update chunkKey now (accessTimes mm)\<rparr>"

text \<open>\<^verbatim>\<open>recalculateCacheSize\<close>: \<^verbatim>\<open>chunkCache.size * 512 * 512 * 4\<close>.\<close>

definition recalculateCacheSize :: "MemoryManager \<Rightarrow> (string \<times> WebGLTexture) list \<Rightarrow> MemoryManager" where
  "recalculateCacheSize mm cache = mm\<lparr>currentCacheSize := int (length cache) * 512 * 512 * 4\<rparr>"

text \<open>
  The body of the \<^verbatim>\<open>for\<close> loop of \<^verbatim>\<open>cleanupCache\<close>, on the triple of access times,
  cache and textures deleted so far.
\<close>

definition evict_one :: "string
    \<Rightarrow> (string \<times> int) list \<times> (string \<times> WebGLTexture) list \<times> WebGLTexture list
    \<Rightarrow> (string \<times> int) list \<times> (string \<times> WebGLTexture) list \<times> WebGLTexture list" where
  "evict_one chunkKey st =
     (case st of (atimes, cache, deleted) \<Rightarrow>
        (case map_of cache chunkKey of
           None \<Rightarrow> (atimes, cache, deleted)
         | Some texture \<Rightarrow>
             (AList.delete chunkKey atimes, AList.delete chunkKey cache, deleted @ [texture])))"

text \<open>
  \<^verbatim>\<open>cleanupCache(chunkCache)\<close>. \<^verbatim>\<open>Math.floor(chunkCache.size * 0.3)\<close> is
  \<open>\<lfloor>3 n / 10\<rfloor>\<close> (the double product rounds to the same integer part for every size a
  cache can have). The third component lists the textures given to
  \<^verbatim>\<open>gl.deleteTexture\<close>, in order.
\<close>

definition cleanupCache :: "MemoryManager \<Rightarrow> (string \<times> WebGLTexture) list
    \<Rightarrow> MemoryManager \<times> (string \<times> WebGLTexture) list \<times> WebGLTexture list" where
  "cleanupCache mm cache =
     (if currentCacheSize mm < maxCacheSize mm then (mm, cache, [])
      else
        (let sortedChunks = take (nat \<lfloor>real (length cache) * (3 / 10)\<rfloor>)
                                 (sort_key snd (accessTimes mm));
             (atimes, cache', deleted) =
                fold evict_one (map fst sortedChunks) (accessTimes mm, cache, [])
         in (recalculateCacheSize (mm\<lparr>accessTimes := atimes\<rparr>) cache', cache', deleted)))"

text \<open>The byte ceiling that holds exactly \<open>K\<close> chunks of \<^verbatim>\<open>512 * 512 * 4\<close> bytes.\<close>

definition ceiling_for :: "nat \<Rightarrow> int" where
  "ceiling_for K = int K * 512 * 512 * 4"

text \<open>
  Modelled from the spec: the request path that ties cache and memory manager together
  is not part of the document. A request for a tile that is not resident stores its
  texture (\<^verbatim>\<open>chunkCache.set\<close>, as \<^verbatim>\<open>loadChunk\<close> does), records the access and then
  runs the eviction pass. The accumulated list is every texture evicted so far.
\<close>

definition request :: "string \<times> WebGLTexture \<times> int
    \<Rightarrow> MemoryManager \<times> (string \<times> WebGLTexture) list \<times> WebGLTexture list
    \<Rightarrow> MemoryManager \<times> (string \<times> WebGLTexture) list \<times> WebGLTexture list" where
  "request req st =
     (case (req, st) of ((key, texture, now), (mm, cache, evicted)) \<Rightarrow>
        (case cleanupCache (recordAccess mm key now) (AList.update key texture cache) of
           (mm', cache', deleted) \<Rightarrow> (mm', cache', evicted @ deleted)))"

definition requests :: "(string \<times> WebGLTexture \<times> int) list
    \<Rightarrow> MemoryManager \<times> (string \<times> WebGLTexture) list \<times> WebGLTexture list
    \<Rightarrow> MemoryManager \<times> (string \<times> WebGLTexture) list \<times> WebGLTexture list" where
  "requests reqs st = fold request reqs st"

text \<open>
  Tile \<open>i\<close> of level 0 of the example image, counted row by row through its grid of
  eight columns, loaded as texture \<open>i\<close> and touched at time \<open>i\<close>.
\<close>

definition tile_req :: "nat \<Rightarrow> string \<times> WebGLTexture \<times> int" where
  "tile_req i =
     (getChunkKey \<lparr>ck_level = 0, ck_x = int (i mod 8), ck_y = int (i div 8)\<rparr>, i, int i)"

text \<open>The cache holding the tiles of a list of indices.\<close>

definition cache_of :: "nat list \<Rightarrow> (string \<times> WebGLTexture) list" where
  "cache_of tiles = map (\<lambda>i. (fst (tile_req i), i)) tiles"

text \<open>
  Tile \<open>i\<close> of the top row of level 0 of the 65536-pixel-wide image (128 columns),
  loaded as texture \<open>i\<close> and touched at time \<open>i\<close>.
\<close>

definition row_req :: "nat \<Rightarrow> string \<times> WebGLTexture \<times> int" where
  "row_req i = (getChunkKey \<lparr>ck_level = 0, ck_x = int i, ck_y = 0\<rparr>, i, int i)"

text \<open>
  The calls a \<^verbatim>\<open>MemoryManager\<close> accepts from outside: \<^verbatim>\<open>recordAccess\<close> with the clock
  reading it takes, and \<^verbatim>\<open>cleanupCache\<close> with the cache it is handed. Its fields are
  private and \<^verbatim>\<open>recalculateCacheSize\<close> is a private method, so a manager in use is the
  freshly constructed one after a sequence of such calls.
\<close>

datatype manager_call =
    RecordAccess string int
  | CleanupCache "(string \<times> WebGLTexture) list"

fun manager_step :: "MemoryManager \<Rightarrow> manager_call \<Rightarrow> MemoryManager" where
  "manager_step mm (RecordAccess chunkKey now) = recordAccess mm chunkKey now"
| "manager_step mm (CleanupCache cache) = fst (cleanupCache mm cache)"

definition manager_after :: "manager_call list \<Rightarrow> MemoryManager" where
  "manager_after calls = fold (\<lambda>call mm. manager_step mm call) calls new_MemoryManager"

text \<open>
  A frame panned one chunk to the right: its viewport, and the chunk list that
  \<^verbatim>\<open>render\<close> hands to \<^verbatim>\<open>loadMissingChunks\<close> and \<^verbatim>\<open>renderChunks\<close>.
\<close>

definition pan_viewport :: Viewport where
  "pan_viewport = \<lparr>vp_x = 512, vp_y = 0, vp_width = 256, vp_height = 256, vp_zoom = 1\<rparr>"

definition pan_chunks :: "ChunkInfo list" where
  "pan_chunks =
     [\<lparr>ck_level = 0, ck_x = 1, ck_y = 0\<rparr>, \<lparr>ck_level = 0, ck_x = 2, ck_y = 0\<rparr>,
      \<lparr>ck_level = 0, ck_x = 1, ck_y = 1\<rparr>, \<lparr>ck_level = 0, ck_x = 2, ck_y = 1\<rparr>]"

section \<open>ChunkPredictor\<close>

text \<open>An entry of \<^verbatim>\<open>movementHistory\<close>, and the position handed to \<^verbatim>\<open>getChunksForPosition\<close>.\<close>

record Movement =
  mv_x :: real
  mv_y :: real
  mv_zoom :: real
  mv_timestamp :: int

record Position =
  ps_x :: real
  ps_y :: real
  ps_zoom :: real

record PredictedChunk =
  pc_level :: int
  pc_x :: int
  pc_y :: int
  pc_priority :: real

text \<open>
  \<^verbatim>\<open>getChunksForPosition(position)\<close>. The level is the unclamped
  \<^verbatim>\<open>Math.max(0, Math.floor(-Math.log2(position.zoom)))\<close>, the chunk size is
  \<^verbatim>\<open>512 * Math.pow(2, -level)\<close>, and the two loops run \<open>dy\<close> and \<open>dx\<close> from
  \<open>-radius\<close> to \<open>radius\<close> with \<open>radius = 2\<close>. The final sort is stable and descending
  in priority. A zoom that is not positive makes level and coordinates infinite or
  \<open>NaN\<close>: \<open>None\<close>. As in \<^verbatim>\<open>calculateLOD\<close>, \<open>log2\<close> is the engine's
  \<^verbatim>\<open>Math.log2\<close>.
\<close>

definition getChunksForPosition :: "(real \<Rightarrow> real) \<Rightarrow> Position \<Rightarrow> PredictedChunk list option" where
  "getChunksForPosition log2 position =
     (if ps_zoom position \<le> 0 then None
      else
        (let level = max 0 \<lfloor>- log2 (ps_zoom position)\<rfloor>;
             scale = 1 / 2 ^ nat level;
             chunkSize = 512 * scale;
             centerX = \<lfloor>ps_x position / chunkSize\<rfloor>;
             centerY = \<lfloor>ps_y position / chunkSize\<rfloor>;
             radius = 2;
             chunks = concat (map (\<lambda>dy. map (\<lambda>dx.
                        (let distance = sqrt (real_of_int (dx * dx + dy * dy));
                             priority = max 0 (1 - distance / real_of_int radius)
                         in \<lparr>pc_level = level, pc_x = centerX + dx, pc_y = centerY + dy,
                             pc_priority = priority\<rparr>))
                        [- radius..radius]) [- radius..radius])
         in Some (sort_key (\<lambda>c. - pc_priority c) chunks)))"

text \<open>
  \<^verbatim>\<open>predictNextChunks()\<close>. The helpers \<^verbatim>\<open>calculateVelocities\<close>,
  \<^verbatim>\<open>calculateAcceleration\<close> and \<^verbatim>\<open>predictPosition\<close> are not part of the document;
  their composition is the parameter \<open>predict\<close>.
\<close>

definition predictNextChunks :: "(real \<Rightarrow> real) \<Rightarrow> (Movement list \<Rightarrow> Position)
    \<Rightarrow> Movement list \<Rightarrow> PredictedChunk list option" where
  "predictNextChunks log2 predict movementHistory =
     (if length movementHistory < 2 then Some []
      else getChunksForPosition log2 (predict movementHistory))"

text \<open>
  Validity of a tile identity against a descriptor's level list: the level exists and
  the coordinates lie inside its grid.
\<close>

definition valid_tile :: "LevelInfo list \<Rightarrow> int \<Rightarrow> int \<Rightarrow> int \<Rightarrow> bool" where
  "valid_tile levels level x y =
     (case level_at levels level of
        None \<Rightarrow> False
      | Some levelData \<Rightarrow> 0 \<le> x \<and> x < lv_chunks_x levelData \<and> 0 \<le> y \<and> y < lv_chunks_y levelData)"

text \<open>A predictor that keeps the latest sample, and a history resting at the origin.\<close>

definition latest_position :: "Movement list \<Rightarrow> Position" where
  "latest_position movementHistory =
     (let latest = last movementHistory
      in \<lparr>ps_x = mv_x latest, ps_y = mv_y latest, ps_zoom = mv_zoom latest\<rparr>)"

definition resting_history :: "Movement list" where
  "resting_history =
     [\<lparr>mv_x = 0, mv_y = 0, mv_zoom = 1, mv_timestamp = 0\<rparr>,
      \<lparr>mv_x = 0, mv_y = 0, mv_zoom = 1, mv_timestamp = 16\<rparr>]"

section \<open>LOD selection\<close>














section \<open>Visible chunks\<close>

text \<open>
  What holds of \<^verbatim>\<open>getVisibleChunks\<close> in general: every returned chunk is a tile of the
  level's grid, and every tile of the grid that overlaps the viewport is returned. The
  column at the unclamped upper bound of the \<open>x\<close> loop never overlaps the viewport.
\<close>

lemma getVisibleChunks_in_bounds:
  assumes "getVisibleChunks levels viewport level = Some chunks" and "c \<in> set chunks"
  shows "valid_tile levels (ck_level c) (ck_x c) (ck_y c)"
proof (cases "level_at levels level")
  case None
  with assms show ?thesis by (simp add: getVisibleChunks_def)
next
  case (Some levelData)
  with assms show ?thesis
    by (auto simp: getVisibleChunks_def valid_tile_def Let_def split: if_splits)
qed

lemma getVisibleChunks_no_gaps:
  assumes lv: "level_at levels level = Some levelData"
    and cs: "0 < lv_chunk_size levelData"
    and x: "0 \<le> x" "x < lv_chunks_x levelData"
    and y: "0 \<le> y" "y < lv_chunks_y levelData"
    and ov: "chunk_overlaps levelData viewport x y"
  shows "\<exists>chunks. getVisibleChunks levels viewport level = Some chunks
           \<and> \<lparr>ck_level = level, ck_x = x, ck_y = y\<rparr> \<in> set chunks"
proof -
  define c where "c = real_of_int (lv_chunk_size levelData)"
  define s where "s = lv_scale levelData"
  have c: "0 < c" using cs by (simp add: c_def)
  have inside: "\<lfloor>l / c\<rfloor> \<le> k \<and> k \<le> \<lceil>r / c\<rceil>"
    if "real_of_int k * c < r" and "l < (real_of_int k + 1) * c" for k :: int and l r :: real
  proof
    from that(2) c have "l / c < real_of_int k + 1" by (simp add: pos_divide_less_eq)
    then have "l / c < real_of_int (k + 1)" by simp
    then have "\<lfloor>l / c\<rfloor> < k + 1" by (simp only: floor_less_iff)
    then show "\<lfloor>l / c\<rfloor> \<le> k" by simp
  next
    from that(1) c have "real_of_int k < r / c" by (simp add: pos_less_divide_eq)
    then have "k < \<lceil>r / c\<rceil>" by (simp only: less_ceiling_iff)
    then show "k \<le> \<lceil>r / c\<rceil>" by simp
  qed
  from ov have ox: "real_of_int x * c < (vp_x viewport * s + vp_width viewport * s)"
      "vp_x viewport * s < (real_of_int x + 1) * c"
    and oy: "real_of_int y * c < (vp_y viewport * s + vp_height viewport * s)"
      "vp_y viewport * s < (real_of_int y + 1) * c"
    by (simp_all add: chunk_overlaps_def Let_def c_def s_def algebra_simps)
  from inside [OF ox] inside [OF oy] lv cs x y show ?thesis
    apply (simp add: getVisibleChunks_def Let_def c_def s_def)
    apply (rule bexI [of _ y])
     apply (rule image_eqI [of _ _ x])
      apply simp_all
    done
qed

lemma getVisibleChunks_last_column_outside:
  assumes "0 < lv_chunk_size levelData"
    and "x = \<lceil>(vp_x viewport * lv_scale levelData + vp_width viewport * lv_scale levelData)
               / real_of_int (lv_chunk_size levelData)\<rceil>"
  shows "\<not> chunk_overlaps levelData viewport x y"
proof -
  define c where "c = real_of_int (lv_chunk_size levelData)"
  define r where "r = vp_x viewport * lv_scale levelData + vp_width viewport * lv_scale levelData"
  have c: "0 < c" using assms(1) by (simp add: c_def)
  have "r / c \<le> real_of_int \<lceil>r / c\<rceil>" by (rule le_of_int_ceiling)
  then have "r \<le> real_of_int \<lceil>r / c\<rceil> * c" by (simp only: pos_divide_le_eq [OF c])
  then have "\<not> real_of_int x * c < r"
    using assms(2) by (simp add: c_def r_def)
  then show ?thesis
    by (simp add: chunk_overlaps_def Let_def c_def r_def algebra_simps)
qed

text \<open>
  Claim C1. The claim asks for exactly the tiles that overlap the viewport, and for the
  2\<times>2 block at the example viewport. The code, run on the viewport (0, 0, 1024, 1024) at
  level 0 of the example pyramid (which \<^verbatim>\<open>calculateLOD\<close> selects at zoom 1), returns
  the 3\<times>3 block: the inclusive loop bound \<open>ceil(1024 / 512) = 2\<close> adds the column
  and the row that start where the viewport ends. The brute-force overlap test yields
  the 2\<times>2 block.
\<close>

theorem getVisibleChunks_example_has_extra_tiles:
  "getVisibleChunks example_levels example_viewport 0
     = Some (concat (map (\<lambda>y. map (\<lambda>x. \<lparr>ck_level = 0, ck_x = x, ck_y = y\<rparr>) [0, 1, 2]) [0, 1, 2]))
   \<and> brute_force_visible (example_levels ! 0) example_viewport 0
     = concat (map (\<lambda>y. map (\<lambda>x. \<lparr>ck_level = 0, ck_x = x, ck_y = y\<rparr>) [0, 1]) [0, 1])
   \<and> calculateLOD log2_nearest example_levels (vp_zoom example_viewport) = Some 0"
proof -
  have a: "getVisibleChunks example_levels example_viewport 0
     = Some (concat (map (\<lambda>y. map (\<lambda>x. \<lparr>ck_level = 0, ck_x = x, ck_y = y\<rparr>) [0, 1, 2]) [0, 1, 2]))"
    by code_simp
  have b: "brute_force_visible (example_levels ! 0) example_viewport 0
     = concat (map (\<lambda>y. map (\<lambda>x. \<lparr>ck_level = 0, ck_x = x, ck_y = y\<rparr>) [0, 1]) [0, 1])"
    by code_simp
  have c: "calculateLOD log2_nearest example_levels (vp_zoom example_viewport) = Some 0"
    by (simp add: calculateLOD_def log2_nearest_def nearest_double_def example_levels_def
          example_viewport_def)
  from a b c show ?thesis by blast
qed

section \<open>Image pyramid\<close>

lemma generate_pyramid_loop_levels:
  "(\<forall>i<length (generate_pyramid_loop current level).
       generate_pyramid_loop current level ! i =
         \<lparr>pl_level = level + int i,
          pl_width = img_width ((resize_image ^^ i) current),
          pl_height = img_height ((resize_image ^^ i) current),
          pl_scale = level_scale (level + int i),
          pl_image = (resize_image ^^ i) current\<rparr>
       \<and> min_size < min (img_width ((resize_image ^^ i) current))
                        (img_height ((resize_image ^^ i) current)))
   \<and> \<not> min_size < min (img_width ((resize_image ^^ length (generate_pyramid_loop current level)) current))
                      (img_height ((resize_image ^^ length (generate_pyramid_loop current level)) current))"
proof (induction current level rule: generate_pyramid_loop.induct)
  case (1 current level)
  show ?case
  proof (cases "min_size < min (img_width current) (img_height current)")
    case False
    then have "generate_pyramid_loop current level = []"
      by (subst generate_pyramid_loop.simps) (simp only: if_False)
    with False show ?thesis by simp
  next
    case True
    let ?rest = "generate_pyramid_loop (resize_image current) (level + 1)"
    have unfold: "generate_pyramid_loop current level =
        \<lparr>pl_level = level, pl_width = img_width current, pl_height = img_height current,
         pl_scale = level_scale level, pl_image = current\<rparr> # ?rest"
      using True by (subst generate_pyramid_loop.simps) (simp only: if_True)
    from "1.IH" True have ih:
      "\<forall>i<length ?rest.
         ?rest ! i =
           \<lparr>pl_level = level + 1 + int i,
            pl_width = img_width ((resize_image ^^ i) (resize_image current)),
            pl_height = img_height ((resize_image ^^ i) (resize_image current)),
            pl_scale = level_scale (level + 1 + int i),
            pl_image = (resize_image ^^ i) (resize_image current)\<rparr>
         \<and> min_size < min (img_width ((resize_image ^^ i) (resize_image current)))
                          (img_height ((resize_image ^^ i) (resize_image current)))"
      and stop: "\<not> min_size < min (img_width ((resize_image ^^ length ?rest) (resize_image current)))
                      (img_height ((resize_image ^^ length ?rest) (resize_image current)))"
      by simp_all
    have levels: "generate_pyramid_loop current level ! i =
           \<lparr>pl_level = level + int i,
            pl_width = img_width ((resize_image ^^ i) current),
            pl_height = img_height ((resize_image ^^ i) current),
            pl_scale = level_scale (level + int i),
            pl_image = (resize_image ^^ i) current\<rparr>
         \<and> min_size < min (img_width ((resize_image ^^ i) current))
                          (img_height ((resize_image ^^ i) current))"
      if "i < length (generate_pyramid_loop current level)" for i
    proof (cases i)
      case 0
      then show ?thesis using True by (simp add: unfold)
    next
      case (Suc j)
      with that have "j < length ?rest" by (simp add: unfold)
      with ih have "?rest ! j =
           \<lparr>pl_level = level + 1 + int j,
            pl_width = img_width ((resize_image ^^ j) (resize_image current)),
            pl_height = img_height ((resize_image ^^ j) (resize_image current)),
            pl_scale = level_scale (level + 1 + int j),
            pl_image = (resize_image ^^ j) (resize_image current)\<rparr>
         \<and> min_size < min (img_width ((resize_image ^^ j) (resize_image current)))
                          (img_height ((resize_image ^^ j) (resize_image current)))"
        by blast
      then show ?thesis
        by (simp add: unfold Suc funpow_swap1 add.assoc)
    qed
    have "\<not> min_size < min (img_width ((resize_image ^^ length (generate_pyramid_loop current level)) current))
                      (img_height ((resize_image ^^ length (generate_pyramid_loop current level)) current))"
      using stop by (simp add: unfold funpow_swap1)
    with levels show ?thesis by blast
  qed
qed

lemma example_pyramid:
  "map (\<lambda>l. (pl_level l, pl_width l, pl_height l)) (generate_pyramid example_image)
     = [(0, 4096, 4096), (1, 2048, 2048), (2, 1024, 1024), (3, 512, 512)]"
  by code_simp

text \<open>
  Claim C2, amended. For every source image \<^verbatim>\<open>generate_pyramid\<close> returns a list of
  successively halved levels numbered 0, 1, 2, ...: level \<open>i\<close> is the source halved \<open>i\<close>
  times. Every recorded level has a smaller side of at least the minimum (256 pixels),
  so the first level whose smaller side falls below the minimum is not in the list; and
  one more halving after the last recorded level has a smaller side of at most the
  minimum.
\<close>

theorem generate_pyramid_levels:
  "(\<forall>i<length (generate_pyramid img).
       generate_pyramid img ! i =
         \<lparr>pl_level = int i,
          pl_width = img_width ((resize_image ^^ i) img),
          pl_height = img_height ((resize_image ^^ i) img),
          pl_scale = level_scale (int i),
          pl_image = (resize_image ^^ i) img\<rparr>
       \<and> min_size \<le> min (pl_width (generate_pyramid img ! i)) (pl_height (generate_pyramid img ! i)))
   \<and> min (img_width ((resize_image ^^ length (generate_pyramid img)) img))
          (img_height ((resize_image ^^ length (generate_pyramid img)) img)) \<le> min_size"
proof -
  have strict: "(\<forall>i<length (generate_pyramid img).
       generate_pyramid img ! i =
         \<lparr>pl_level = int i,
          pl_width = img_width ((resize_image ^^ i) img),
          pl_height = img_height ((resize_image ^^ i) img),
          pl_scale = level_scale (int i),
          pl_image = (resize_image ^^ i) img\<rparr>
       \<and> min_size < min (img_width ((resize_image ^^ i) img)) (img_height ((resize_image ^^ i) img)))
   \<and> \<not> min_size < min (img_width ((resize_image ^^ length (generate_pyramid img)) img))
                      (img_height ((resize_image ^^ length (generate_pyramid img)) img))"
    using generate_pyramid_loop_levels [of img 0] by (simp add: generate_pyramid_def)
  then have "\<forall>i<length (generate_pyramid img).
       generate_pyramid img ! i =
         \<lparr>pl_level = int i,
          pl_width = img_width ((resize_image ^^ i) img),
          pl_height = img_height ((resize_image ^^ i) img),
          pl_scale = level_scale (int i),
          pl_image = (resize_image ^^ i) img\<rparr>
       \<and> min_size \<le> min (pl_width (generate_pyramid img ! i)) (pl_height (generate_pyramid img ! i))"
    by (auto simp: less_imp_le)
  moreover from strict
  have "\<not> min_size < min (img_width ((resize_image ^^ length (generate_pyramid img)) img))
                      (img_height ((resize_image ^^ length (generate_pyramid img)) img))"
    by blast
  then have "min (img_width ((resize_image ^^ length (generate_pyramid img)) img))
          (img_height ((resize_image ^^ length (generate_pyramid img)) img)) \<le> min_size"
    by (simp only: not_less)
  ultimately show ?thesis by blast
qed

lemma pyramid_1000:
  "map (\<lambda>l. (pl_level l, pl_width l, pl_height l)) (generate_pyramid image_1000)
     = [(0, 1000, 1000), (1, 500, 500)]"
  by code_simp

text \<open>
  The 1000\<times>1000 image: levels 1000 and 500 are recorded, level 1 is the source halved
  once, and the second halving, 250, is under the minimum.
\<close>

theorem generate_pyramid_levels_witness:
  "(1::nat) < length (generate_pyramid image_1000)
   \<and> generate_pyramid image_1000 ! 1 =
       \<lparr>pl_level = 1, pl_width = 500, pl_height = 500, pl_scale = 1 / 2,
        pl_image = \<lparr>img_width = 500, img_height = 500\<rparr>\<rparr>
   \<and> min_size \<le> min (pl_width (generate_pyramid image_1000 ! 1))
                    (pl_height (generate_pyramid image_1000 ! 1))
   \<and> min (img_width ((resize_image ^^ 2) image_1000))
          (img_height ((resize_image ^^ 2) image_1000)) \<le> min_size"
proof -
  have len: "length (generate_pyramid image_1000) = 2"
    using pyramid_1000 [THEN arg_cong, of length] by simp
  have r1: "resize_image image_1000 = \<lparr>img_width = 500, img_height = 500\<rparr>"
    by (simp add: resize_image_def image_1000_def)
  have r2: "(resize_image ^^ 2) image_1000 = \<lparr>img_width = 250, img_height = 250\<rparr>"
    by (simp add: eval_nat_numeral resize_image_def image_1000_def)
  from generate_pyramid_levels [of image_1000] show ?thesis
    by (simp add: len r1 r2 level_scale_def min_size_def)
qed

text \<open>
  Claim C2 as stated fails for the 1000\<times>1000 image. The recorded levels are 1000 and
  500; the first level whose smaller side falls below the minimum is the next halving,
  250, and no recorded level has a smaller side below the minimum: the stopping level is
  not included.
\<close>

theorem generate_pyramid_stopping_level_counterexample:
  "map (\<lambda>l. (pl_level l, pl_width l, pl_height l)) (generate_pyramid image_1000)
     = [(0, 1000, 1000), (1, 500, 500)]
   \<and> resize_image (pl_image (last (generate_pyramid image_1000)))
       = \<lparr>img_width = 250, img_height = 250\<rparr>
   \<and> 250 < min_size
   \<and> filter (\<lambda>l. min (pl_width l) (pl_height l) < min_size) (generate_pyramid image_1000) = []"
proof -
  have a: "resize_image (pl_image (last (generate_pyramid image_1000)))
       = \<lparr>img_width = 250, img_height = 250\<rparr>"
    by code_simp
  have b: "250 < min_size" by (simp add: min_size_def)
  have c: "filter (\<lambda>l. min (pl_width l) (pl_height l) < min_size) (generate_pyramid image_1000) = []"
    by code_simp
  from pyramid_1000 a b c show ?thesis by blast
qed


section \<open>Chunks and metadata\<close>

text \<open>
  What \<^verbatim>\<open>process_large_image\<close> returns for a positive chunk size: per pyramid level,
  the grid is the rounded-up quotient of the level's true dimensions, the chunk count is
  the product of the grid, and the recorded width and height are those of the first
  chunk.
\<close>

lemma ceil_div_pos: "0 < a \<Longrightarrow> 0 < b \<Longrightarrow> 1 \<le> ceil_div a b"
proof -
  assume "0 < a" and "0 < b"
  then have "0 < real_of_int a / real_of_int b" by simp
  then have "0 < \<lceil>real_of_int a / real_of_int b\<rceil>" by (simp only: zero_less_ceiling)
  then show ?thesis by (simp add: ceil_div_def)
qed

lemma grid_head:
  assumes "1 \<le> cx" and "1 \<le> cy"
  shows "concat (map (\<lambda>y. map (f y) [0..cx - 1]) [0..cy - 1])
       = f 0 0 # map (f 0) [1..cx - 1] @ concat (map (\<lambda>y. map (f y) [0..cx - 1]) [1..cy - 1])"
proof -
  from assms have "[0..cx - 1] = 0 # [1..cx - 1]" and "[0..cy - 1] = 0 # [1..cy - 1]"
    by (simp_all add: upto_rec1)
  then show ?thesis by simp
qed

lemma grid_length:
  assumes "1 \<le> cx" and "1 \<le> cy"
  shows "int (length (concat (map (\<lambda>y. map (f y) [0..cx - 1]) [0..cy - 1]))) = cx * cy"
proof -
  have "length (concat (map (\<lambda>y. map (f y) [0..cx - 1]) [0..cy - 1])) = nat cy * nat cx"
    using assms by (simp add: length_concat comp_def sum_list_triv)
  with assms show ?thesis by (simp add: nat_mult_distrib [symmetric] mult.commute)
qed

lemma grid_max_x:
  assumes "1 \<le> cx" and "1 \<le> cy" and "\<And>x y. g (f y x) = x"
  shows "Max (set (map g (concat (map (\<lambda>y. map (f y) [0..cx - 1]) [0..cy - 1])))) = cx - 1"
proof -
  have ne: "{0..cy - 1} \<noteq> {}" using assms(2) by simp
  have "set (map g (concat (map (\<lambda>y. map (f y) [0..cx - 1]) [0..cy - 1])))
      = (\<Union>y\<in>{0..cy - 1}. (\<lambda>x. g (f y x)) ` {0..cx - 1})"
    by (simp add: image_UN image_image)
  also have "\<dots> = (\<Union>y\<in>{0..cy - 1}. {0..cx - 1})" by (simp add: assms(3))
  also have "\<dots> = {0..cx - 1}" using ne by simp
  finally have "set (map g (concat (map (\<lambda>y. map (f y) [0..cx - 1]) [0..cy - 1]))) = {0..cx - 1}" .
  moreover have "Max {0..cx - 1} = cx - 1"
    using assms(1) by (intro Max_eqI) auto
  ultimately show ?thesis by simp
qed

lemma grid_max_y:
  assumes "1 \<le> cx" and "1 \<le> cy" and "\<And>x y. g (f y x) = y"
  shows "Max (set (map g (concat (map (\<lambda>y. map (f y) [0..cx - 1]) [0..cy - 1])))) = cy - 1"
proof -
  have ne: "{0..cx - 1} \<noteq> {}" using assms(1) by simp
  have "set (map g (concat (map (\<lambda>y. map (f y) [0..cx - 1]) [0..cy - 1])))
      = (\<Union>y\<in>{0..cy - 1}. (\<lambda>x. g (f y x)) ` {0..cx - 1})"
    by (simp add: image_UN image_image)
  also have "\<dots> = (\<Union>y\<in>{0..cy - 1}. (\<lambda>x. y) ` {0..cx - 1})" by (simp only: assms(3))
  also have "\<dots> = (\<Union>y\<in>{0..cy - 1}. {y})" using ne by (simp only: image_constant_conv if_False)
  also have "\<dots> = {0..cy - 1}" by simp
  finally have "set (map g (concat (map (\<lambda>y. map (f y) [0..cx - 1]) [0..cy - 1]))) = {0..cy - 1}" .
  moreover have "Max {0..cy - 1} = cy - 1"
    using assms(2) by (intro Max_eqI) auto
  ultimately show ?thesis by simp
qed

lemma level_metadata_level_chunks:
  assumes "0 < chunk_size"
    and "0 < img_width (pl_image level_data)" and "0 < img_height (pl_image level_data)"
  shows "level_metadata chunk_size (level, level_chunks chunk_size level_data) =
     Inr \<lparr>lv_level = level,
          lv_width = min chunk_size (img_width (pl_image level_data)),
          lv_height = min chunk_size (img_height (pl_image level_data)),
          lv_scale = level_scale level,
          lv_chunk_size = chunk_size,
          lv_chunks_x = ceil_div (img_width (pl_image level_data)) chunk_size,
          lv_chunks_y = ceil_div (img_height (pl_image level_data)) chunk_size,
          lv_chunk_count = ceil_div (img_width (pl_image level_data)) chunk_size
                           * ceil_div (img_height (pl_image level_data)) chunk_size\<rparr>"
proof -
  let ?w = "img_width (pl_image level_data)" and ?h = "img_height (pl_image level_data)"
  let ?cx = "ceil_div ?w chunk_size" and ?cy = "ceil_div ?h chunk_size"
  let ?f = "\<lambda>y x. \<lparr>ch_level = pl_level level_data, ch_x = x, ch_y = y,
                     ch_actual_x = x * chunk_size, ch_actual_y = y * chunk_size,
                     ch_width = min chunk_size (?w - x * chunk_size),
                     ch_height = min chunk_size (?h - y * chunk_size)\<rparr>"
  have cx: "1 \<le> ?cx" and cy: "1 \<le> ?cy"
    using assms by (simp_all add: ceil_div_pos)
  have lc: "level_chunks chunk_size level_data
      = concat (map (\<lambda>y. map (?f y) [0..?cx - 1]) [0..?cy - 1])"
    by (simp add: level_chunks_def Let_def)
  have hd: "level_chunks chunk_size level_data
      = ?f 0 0 # map (?f 0) [1..?cx - 1] @ concat (map (\<lambda>y. map (?f y) [0..?cx - 1]) [1..?cy - 1])"
    unfolding lc using cx cy by (rule grid_head)
  have len: "int (length (level_chunks chunk_size level_data)) = ?cx * ?cy"
    unfolding lc using cx cy by (rule grid_length)
  have mx: "Max (set (map ch_x (level_chunks chunk_size level_data))) = ?cx - 1"
    unfolding lc using cx cy by (rule grid_max_x) simp
  have my: "Max (set (map ch_y (level_chunks chunk_size level_data))) = ?cy - 1"
    unfolding lc using cx cy by (rule grid_max_y) simp
  show ?thesis
    unfolding level_metadata_def
    apply (simp only: prod.case Let_def mx my len)
    apply (subst hd)
    apply simp
    done
qed


lemma generate_pyramid_loop_members:
  assumes "level_data \<in> set (generate_pyramid_loop current level)"
  shows "pl_width level_data = img_width (pl_image level_data)
       \<and> pl_height level_data = img_height (pl_image level_data)
       \<and> 0 < img_width (pl_image level_data) \<and> 0 < img_height (pl_image level_data)"
proof -
  from assms obtain i where i: "i < length (generate_pyramid_loop current level)"
    and ld: "level_data = generate_pyramid_loop current level ! i"
    by (auto simp: in_set_conv_nth)
  from generate_pyramid_loop_levels [of current level] i
  have "generate_pyramid_loop current level ! i =
         \<lparr>pl_level = level + int i,
          pl_width = img_width ((resize_image ^^ i) current),
          pl_height = img_height ((resize_image ^^ i) current),
          pl_scale = level_scale (level + int i),
          pl_image = (resize_image ^^ i) current\<rparr>"
    and "min_size < min (img_width ((resize_image ^^ i) current))
                        (img_height ((resize_image ^^ i) current))"
    by blast+
  then show ?thesis by (simp add: ld min_size_def)
qed

lemma generate_pyramid_loop_distinct:
  "distinct (map pl_level (generate_pyramid_loop current level))"
proof -
  have "map pl_level (generate_pyramid_loop current level)
      = map (\<lambda>i. level + int i) [0..<length (generate_pyramid_loop current level)]"
    using generate_pyramid_loop_levels [of current level]
    by (intro nth_equalityI) simp_all
  moreover have "distinct (map (\<lambda>i. level + int i) [0..<length (generate_pyramid_loop current level)])"
    by (simp add: distinct_map inj_on_def)
  ultimately show ?thesis by simp
qed

lemma update_fresh:
  "k \<notin> fst ` set al \<Longrightarrow> AList.update k v al = al @ [(k, v)]"
  by (induction al) auto

lemma split_loop_fresh:
  assumes "chunk_size \<noteq> 0"
  shows "distinct (map pl_level lvls) \<Longrightarrow> \<forall>ld\<in>set lvls. pl_level ld \<notin> fst ` set acc \<Longrightarrow>
     split_loop chunk_size lvls acc
       = Inr (acc @ map (\<lambda>ld. (pl_level ld, level_chunks chunk_size ld)) lvls)"
proof (induction lvls arbitrary: acc)
  case Nil
  then show ?case by simp
next
  case (Cons ld lvls)
  from Cons.prems have fresh: "pl_level ld \<notin> fst ` set acc" by simp
  have "\<forall>l\<in>set lvls. pl_level l \<notin> fst ` set (acc @ [(pl_level ld, level_chunks chunk_size ld)])"
    using Cons.prems by (auto simp: image_iff)
  with Cons.IH [of "acc @ [(pl_level ld, level_chunks chunk_size ld)]"] Cons.prems(1)
  have "split_loop chunk_size lvls (acc @ [(pl_level ld, level_chunks chunk_size ld)])
      = Inr ((acc @ [(pl_level ld, level_chunks chunk_size ld)])
             @ map (\<lambda>ld. (pl_level ld, level_chunks chunk_size ld)) lvls)"
    by simp
  with assms fresh show ?case by (simp add: update_fresh)
qed

text \<open>The level entry that \<^verbatim>\<open>generate_metadata\<close> builds for a pyramid level.\<close>

lemma metadata_loop_levels:
  assumes "0 < chunk_size"
  shows "\<forall>ld\<in>set lvls. 0 < img_width (pl_image ld) \<and> 0 < img_height (pl_image ld) \<Longrightarrow>
     metadata_loop chunk_size (map (\<lambda>ld. (pl_level ld, level_chunks chunk_size ld)) lvls)
       = Inr (map (\<lambda>ld. \<lparr>lv_level = pl_level ld,
                          lv_width = min chunk_size (img_width (pl_image ld)),
                          lv_height = min chunk_size (img_height (pl_image ld)),
                          lv_scale = level_scale (pl_level ld),
                          lv_chunk_size = chunk_size,
                          lv_chunks_x = ceil_div (img_width (pl_image ld)) chunk_size,
                          lv_chunks_y = ceil_div (img_height (pl_image ld)) chunk_size,
                          lv_chunk_count = ceil_div (img_width (pl_image ld)) chunk_size
                                           * ceil_div (img_height (pl_image ld)) chunk_size\<rparr>) lvls,
              sum_list (map (\<lambda>ld. int (length (level_chunks chunk_size ld))) lvls))"
proof (induction lvls)
  case Nil
  then show ?case by simp
next
  case (Cons ld lvls)
  then show ?case
    using level_metadata_level_chunks [OF assms, of ld "pl_level ld"] by simp
qed

lemma process_large_image_metadata:
  assumes "0 < chunk_size"
  shows "\<exists>md. process_large_image chunk_size env
           = Inr (md, map (\<lambda>ld. (pl_level ld, level_chunks chunk_size ld))
                          (generate_pyramid (en_image env)))
       \<and> md_levels md =
           map (\<lambda>ld. \<lparr>lv_level = pl_level ld,
                       lv_width = min chunk_size (pl_width ld),
                       lv_height = min chunk_size (pl_height ld),
                       lv_scale = level_scale (pl_level ld),
                       lv_chunk_size = chunk_size,
                       lv_chunks_x = ceil_div (pl_width ld) chunk_size,
                       lv_chunks_y = ceil_div (pl_height ld) chunk_size,
                       lv_chunk_count = ceil_div (pl_width ld) chunk_size
                                        * ceil_div (pl_height ld) chunk_size\<rparr>)
               (generate_pyramid (en_image env))"
proof -
  let ?lvls = "generate_pyramid (en_image env)"
  have mem: "pl_width ld = img_width (pl_image ld) \<and> pl_height ld = img_height (pl_image ld)
       \<and> 0 < img_width (pl_image ld) \<and> 0 < img_height (pl_image ld)"
    if "ld \<in> set ?lvls" for ld
    using that unfolding generate_pyramid_def by (rule generate_pyramid_loop_members)
  have split: "split_into_chunks chunk_size ?lvls
      = Inr (map (\<lambda>ld. (pl_level ld, level_chunks chunk_size ld)) ?lvls)"
    using assms split_loop_fresh [of chunk_size ?lvls "[]"] generate_pyramid_loop_distinct
    by (simp add: split_into_chunks_def generate_pyramid_def)
  have "\<forall>ld\<in>set ?lvls. 0 < img_width (pl_image ld) \<and> 0 < img_height (pl_image ld)"
    using mem by blast
  from metadata_loop_levels [OF assms this]
  have loop: "metadata_loop chunk_size (map (\<lambda>ld. (pl_level ld, level_chunks chunk_size ld)) ?lvls)
       = Inr (map (\<lambda>ld. \<lparr>lv_level = pl_level ld,
                          lv_width = min chunk_size (img_width (pl_image ld)),
                          lv_height = min chunk_size (img_height (pl_image ld)),
                          lv_scale = level_scale (pl_level ld),
                          lv_chunk_size = chunk_size,
                          lv_chunks_x = ceil_div (img_width (pl_image ld)) chunk_size,
                          lv_chunks_y = ceil_div (img_height (pl_image ld)) chunk_size,
                          lv_chunk_count = ceil_div (img_width (pl_image ld)) chunk_size
                                           * ceil_div (img_height (pl_image ld)) chunk_size\<rparr>) ?lvls,
              sum_list (map (\<lambda>ld. int (length (level_chunks chunk_size ld))) ?lvls))" .
  have same: "map (\<lambda>ld. \<lparr>lv_level = pl_level ld,
                          lv_width = min chunk_size (img_width (pl_image ld)),
                          lv_height = min chunk_size (img_height (pl_image ld)),
                          lv_scale = level_scale (pl_level ld),
                          lv_chunk_size = chunk_size,
                          lv_chunks_x = ceil_div (img_width (pl_image ld)) chunk_size,
                          lv_chunks_y = ceil_div (img_height (pl_image ld)) chunk_size,
                          lv_chunk_count = ceil_div (img_width (pl_image ld)) chunk_size
                                           * ceil_div (img_height (pl_image ld)) chunk_size\<rparr>) ?lvls
      = map (\<lambda>ld. \<lparr>lv_level = pl_level ld,
                       lv_width = min chunk_size (pl_width ld),
                       lv_height = min chunk_size (pl_height ld),
                       lv_scale = level_scale (pl_level ld),
                       lv_chunk_size = chunk_size,
                       lv_chunks_x = ceil_div (pl_width ld) chunk_size,
                       lv_chunks_y = ceil_div (pl_height ld) chunk_size,
                       lv_chunk_count = ceil_div (pl_width ld) chunk_size
                                        * ceil_div (pl_height ld) chunk_size\<rparr>) ?lvls"
    by (rule map_cong [OF refl]) (simp add: mem)
  show ?thesis
    by (simp add: process_large_image_def Let_def split generate_metadata_def loop same)
qed

text \<open>
  Claim C3. The claim relates the recorded grid to the recorded width and height. For
  the 4096\<times>4096 image with 512-pixel chunks every level entry records the width and
  height of its first chunk, 512\<times>512, next to grids of 8\<times>8, 4\<times>4, 2\<times>2 and 1\<times>1
  chunks, although the levels are 4096, 2048, 1024 and 512 pixels wide and
  \<open>ceil(512 / 512) = 1\<close>. The chunk counts 64, 16, 4 and 1 are the products of the grids.
\<close>

theorem metadata_width_is_first_chunk_width:
  "map_sum id (\<lambda>(md, chunks_data). map grid_fields (md_levels md))
      (process_large_image 512 (example_env 1))
     = Inr [(512, 512, 8, 8, 64), (512, 512, 4, 4, 16), (512, 512, 2, 2, 4), (512, 512, 1, 1, 1)]
   \<and> map (\<lambda>l. (pl_width l, pl_height l)) (generate_pyramid example_image)
     = [(4096, 4096), (2048, 2048), (1024, 1024), (512, 512)]
   \<and> ceil_div 512 512 = 1"
proof -
  have a: "map_sum id (\<lambda>(md, chunks_data). map grid_fields (md_levels md))
      (process_large_image 512 (example_env 1))
     = Inr [(512, 512, 8, 8, 64), (512, 512, 4, 4, 16), (512, 512, 2, 2, 4), (512, 512, 1, 1, 1)]"
    by code_simp
  have b: "map (\<lambda>l. (pl_width l, pl_height l)) (generate_pyramid example_image)
     = [(4096, 4096), (2048, 2048), (1024, 1024), (512, 512)]"
    by code_simp
  have c: "ceil_div 512 512 = 1" by (simp add: ceil_div_def)
  from a b c show ?thesis by blast
qed

text \<open>
  What \<^verbatim>\<open>process_large_image\<close> returns for a positive chunk size: no exception is
  raised, and levels, chunk counts and partitioning are functions of the pyramid of the
  image alone.
\<close>

lemma level_chunks_count:
  assumes "0 < chunk_size"
    and "0 < img_width (pl_image level_data)" and "0 < img_height (pl_image level_data)"
  shows "int (length (level_chunks chunk_size level_data))
       = ceil_div (img_width (pl_image level_data)) chunk_size
         * ceil_div (img_height (pl_image level_data)) chunk_size"
proof -
  have "1 \<le> ceil_div (img_width (pl_image level_data)) chunk_size"
    and "1 \<le> ceil_div (img_height (pl_image level_data)) chunk_size"
    using assms by (simp_all add: ceil_div_pos)
  then show ?thesis
    unfolding level_chunks_def Let_def by (rule grid_length)
qed

lemma process_large_image_result:
  assumes "0 < chunk_size"
  shows "process_large_image chunk_size env =
     Inr (\<lparr>md_image_id = en_image_id env,
           md_levels =
             map (\<lambda>ld. \<lparr>lv_level = pl_level ld,
                         lv_width = min chunk_size (pl_width ld),
                         lv_height = min chunk_size (pl_height ld),
                         lv_scale = level_scale (pl_level ld),
                         lv_chunk_size = chunk_size,
                         lv_chunks_x = ceil_div (pl_width ld) chunk_size,
                         lv_chunks_y = ceil_div (pl_height ld) chunk_size,
                         lv_chunk_count = ceil_div (pl_width ld) chunk_size
                                          * ceil_div (pl_height ld) chunk_size\<rparr>)
                 (generate_pyramid (en_image env)),
           md_total_chunks =
             sum_list (map (\<lambda>ld. ceil_div (pl_width ld) chunk_size
                                  * ceil_div (pl_height ld) chunk_size)
                           (generate_pyramid (en_image env))),
           md_chunk_size = chunk_size,
           md_processing_time = en_time env - en_start_time env\<rparr>,
          map (\<lambda>ld. (pl_level ld, level_chunks chunk_size ld)) (generate_pyramid (en_image env)))"
proof -
  let ?lvls = "generate_pyramid (en_image env)"
  have mem: "pl_width ld = img_width (pl_image ld) \<and> pl_height ld = img_height (pl_image ld)
       \<and> 0 < img_width (pl_image ld) \<and> 0 < img_height (pl_image ld)"
    if "ld \<in> set ?lvls" for ld
    using that unfolding generate_pyramid_def by (rule generate_pyramid_loop_members)
  have split: "split_into_chunks chunk_size ?lvls
      = Inr (map (\<lambda>ld. (pl_level ld, level_chunks chunk_size ld)) ?lvls)"
    using assms split_loop_fresh [of chunk_size ?lvls "[]"] generate_pyramid_loop_distinct
    by (simp add: split_into_chunks_def generate_pyramid_def)
  have "\<forall>ld\<in>set ?lvls. 0 < img_width (pl_image ld) \<and> 0 < img_height (pl_image ld)"
    using mem by blast
  from metadata_loop_levels [OF assms this]
  have loop: "metadata_loop chunk_size (map (\<lambda>ld. (pl_level ld, level_chunks chunk_size ld)) ?lvls)
       = Inr (map (\<lambda>ld. \<lparr>lv_level = pl_level ld,
                          lv_width = min chunk_size (img_width (pl_image ld)),
                          lv_height = min chunk_size (img_height (pl_image ld)),
                          lv_scale = level_scale (pl_level ld),
                          lv_chunk_size = chunk_size,
                          lv_chunks_x = ceil_div (img_width (pl_image ld)) chunk_size,
                          lv_chunks_y = ceil_div (img_height (pl_image ld)) chunk_size,
                          lv_chunk_count = ceil_div (img_width (pl_image ld)) chunk_size
                                           * ceil_div (img_height (pl_image ld)) chunk_size\<rparr>) ?lvls,
              sum_list (map (\<lambda>ld. int (length (level_chunks chunk_size ld))) ?lvls))" .
  have same: "map (\<lambda>ld. \<lparr>lv_level = pl_level ld,
                          lv_width = min chunk_size (img_width (pl_image ld)),
                          lv_height = min chunk_size (img_height (pl_image ld)),
                          lv_scale = level_scale (pl_level ld),
                          lv_chunk_size = chunk_size,
                          lv_chunks_x = ceil_div (img_width (pl_image ld)) chunk_size,
                          lv_chunks_y = ceil_div (img_height (pl_image ld)) chunk_size,
                          lv_chunk_count = ceil_div (img_width (pl_image ld)) chunk_size
                                           * ceil_div (img_height (pl_image ld)) chunk_size\<rparr>) ?lvls
      = map (\<lambda>ld. \<lparr>lv_level = pl_level ld,
                       lv_width = min chunk_size (pl_width ld),
                       lv_height = min chunk_size (pl_height ld),
                       lv_scale = level_scale (pl_level ld),
                       lv_chunk_size = chunk_size,
                       lv_chunks_x = ceil_div (pl_width ld) chunk_size,
                       lv_chunks_y = ceil_div (pl_height ld) chunk_size,
                       lv_chunk_count = ceil_div (pl_width ld) chunk_size
                                        * ceil_div (pl_height ld) chunk_size\<rparr>) ?lvls"
    by (rule map_cong [OF refl]) (simp add: mem)
  have total: "sum_list (map (\<lambda>ld. int (length (level_chunks chunk_size ld))) ?lvls)
      = sum_list (map (\<lambda>ld. ceil_div (pl_width ld) chunk_size
                              * ceil_div (pl_height ld) chunk_size) ?lvls)"
    by (rule arg_cong [where f = sum_list], rule map_cong [OF refl])
       (simp add: mem level_chunks_count [OF assms])
  show ?thesis
    by (simp add: process_large_image_def Let_def split generate_metadata_def loop same total)
qed

lemma process_large_image_clock:
  assumes "en_image env1 = en_image env2" and "en_image_id env1 = en_image_id env2"
  shows "case process_large_image chunk_size env1 of
           Inl e \<Rightarrow> process_large_image chunk_size env2 = Inl e
         | Inr (md, chunks) \<Rightarrow>
             process_large_image chunk_size env2
               = Inr (md\<lparr>md_processing_time := en_time env2 - en_start_time env2\<rparr>, chunks)
             \<and> md_processing_time md = en_time env1 - en_start_time env1"
  using assms
  by (simp add: process_large_image_def generate_metadata_def Let_def
           split: sum.splits prod.splits)

text \<open>
  Claim C4, amended. For every source image and chunk size, two runs of
  \<^verbatim>\<open>process_large_image\<close> on the same image, with the same identifier returned by
  \<^verbatim>\<open>generate_image_id()\<close>, raise the same exception or return the same tile
  partitioning and metadata that agree in every field except \<^verbatim>\<open>processing_time\<close>,
  which is the clock reading \<^verbatim>\<open>time.time() - self.start_time\<close> of each run. For a
  positive chunk size a run returns, and its levels, \<^verbatim>\<open>total_chunks\<close>,
  \<^verbatim>\<open>chunk_size\<close> and partitioning are determined by the image and the chunk size.
\<close>

theorem process_large_image_two_runs:
  assumes "en_image env1 = en_image env2" and "en_image_id env1 = en_image_id env2"
  shows "(case process_large_image chunk_size env1 of
            Inl e \<Rightarrow> process_large_image chunk_size env2 = Inl e
          | Inr (md, chunks) \<Rightarrow>
              process_large_image chunk_size env2
                = Inr (md\<lparr>md_processing_time := en_time env2 - en_start_time env2\<rparr>, chunks)
              \<and> md_processing_time md = en_time env1 - en_start_time env1)
       \<and> (0 < chunk_size \<longrightarrow>
            (\<exists>md chunks. process_large_image chunk_size env1 = Inr (md, chunks)
               \<and> md_image_id md = en_image_id env1
               \<and> md_levels md =
                   map (\<lambda>ld. \<lparr>lv_level = pl_level ld,
                               lv_width = min chunk_size (pl_width ld),
                               lv_height = min chunk_size (pl_height ld),
                               lv_scale = level_scale (pl_level ld),
                               lv_chunk_size = chunk_size,
                               lv_chunks_x = ceil_div (pl_width ld) chunk_size,
                               lv_chunks_y = ceil_div (pl_height ld) chunk_size,
                               lv_chunk_count = ceil_div (pl_width ld) chunk_size
                                                * ceil_div (pl_height ld) chunk_size\<rparr>)
                       (generate_pyramid (en_image env1))
               \<and> md_total_chunks md = sum_list (map lv_chunk_count (md_levels md))
               \<and> md_chunk_size md = chunk_size
               \<and> chunks = map (\<lambda>ld. (pl_level ld, level_chunks chunk_size ld))
                               (generate_pyramid (en_image env1))))"
proof (intro conjI impI)
  show "case process_large_image chunk_size env1 of
            Inl e \<Rightarrow> process_large_image chunk_size env2 = Inl e
          | Inr (md, chunks) \<Rightarrow>
              process_large_image chunk_size env2
                = Inr (md\<lparr>md_processing_time := en_time env2 - en_start_time env2\<rparr>, chunks)
              \<and> md_processing_time md = en_time env1 - en_start_time env1"
    using assms by (rule process_large_image_clock)
next
  assume "0 < chunk_size"
  from process_large_image_result [OF this, of env1]
  show "\<exists>md chunks. process_large_image chunk_size env1 = Inr (md, chunks)
               \<and> md_image_id md = en_image_id env1
               \<and> md_levels md =
                   map (\<lambda>ld. \<lparr>lv_level = pl_level ld,
                               lv_width = min chunk_size (pl_width ld),
                               lv_height = min chunk_size (pl_height ld),
                               lv_scale = level_scale (pl_level ld),
                               lv_chunk_size = chunk_size,
                               lv_chunks_x = ceil_div (pl_width ld) chunk_size,
                               lv_chunks_y = ceil_div (pl_height ld) chunk_size,
                               lv_chunk_count = ceil_div (pl_width ld) chunk_size
                                                * ceil_div (pl_height ld) chunk_size\<rparr>)
                       (generate_pyramid (en_image env1))
               \<and> md_total_chunks md = sum_list (map lv_chunk_count (md_levels md))
               \<and> md_chunk_size md = chunk_size
               \<and> chunks = map (\<lambda>ld. (pl_level ld, level_chunks chunk_size ld))
                               (generate_pyramid (en_image env1))"
    by (simp add: comp_def)
qed

lemma example_runs:
  "map_sum id (\<lambda>(md, chunks_data).
       (md_image_id md, map grid_fields (md_levels md), md_total_chunks md, md_chunk_size md,
        md_processing_time md))
     (process_large_image 512 (example_env 1))
   = Inr (''img'', [(512, 512, 8, 8, 64), (512, 512, 4, 4, 16), (512, 512, 2, 2, 4),
                   (512, 512, 1, 1, 1)], 85, 512, 1)"
  "map_sum id (\<lambda>(md, chunks_data).
       (md_image_id md, map grid_fields (md_levels md), md_total_chunks md, md_chunk_size md,
        md_processing_time md))
     (process_large_image 512 (example_env 2))
   = Inr (''img'', [(512, 512, 8, 8, 64), (512, 512, 4, 4, 16), (512, 512, 2, 2, 4),
                   (512, 512, 1, 1, 1)], 85, 512, 2)"
  by code_simp+

text \<open>
  Two runs over the 4096\<times>4096 image with 512-pixel chunks, finishing one and two
  seconds after their start: 85 chunks each, and metadata that differ in the processing
  time only.
\<close>

theorem process_large_image_two_runs_witness:
  "en_image (example_env 1) = en_image (example_env 2)
   \<and> en_image_id (example_env 1) = en_image_id (example_env 2)
   \<and> (0::int) < 512
   \<and> (\<exists>md chunks. process_large_image 512 (example_env 1) = Inr (md, chunks)
        \<and> process_large_image 512 (example_env 2)
             = Inr (md\<lparr>md_processing_time := 2\<rparr>, chunks)
        \<and> md_processing_time md = 1
        \<and> md_image_id md = ''img''
        \<and> md_total_chunks md = 85
        \<and> md_chunk_size md = 512)"
proof -
  have e: "en_image (example_env 1) = en_image (example_env 2)"
    "en_image_id (example_env 1) = en_image_id (example_env 2)"
    by (simp_all add: example_env_def)
  note t = process_large_image_two_runs [OF e, of 512]
  from t obtain md chunks where
    r1: "process_large_image 512 (example_env 1) = Inr (md, chunks)"
    by auto
  from t r1 have r2: "process_large_image 512 (example_env 2)
             = Inr (md\<lparr>md_processing_time := en_time (example_env 2)
                                                - en_start_time (example_env 2)\<rparr>, chunks)"
    and p: "md_processing_time md = en_time (example_env 1) - en_start_time (example_env 1)"
    by simp_all
  from example_runs(1) r1 have f: "md_image_id md = ''img''" "md_total_chunks md = 85"
    "md_chunk_size md = 512"
    by simp_all
  from r2 have r2': "process_large_image 512 (example_env 2)
             = Inr (md\<lparr>md_processing_time := 2\<rparr>, chunks)"
    by (simp add: example_env_def)
  from p have p': "md_processing_time md = 1"
    by (simp add: example_env_def)
  from e r1 r2' p' f show ?thesis by simp
qed

text \<open>
  Claim C4 as stated fails for these two runs: image, identifier and chunk size are the
  same, the processing times are 1 and 2, and so the returned metadata differ.
\<close>

theorem process_large_image_runs_differ_counterexample:
  "en_image (example_env 1) = en_image (example_env 2)
   \<and> en_image_id (example_env 1) = en_image_id (example_env 2)
   \<and> map_sum id (\<lambda>(md, chunks_data). md_processing_time md)
        (process_large_image 512 (example_env 1)) = Inr 1
   \<and> map_sum id (\<lambda>(md, chunks_data). md_processing_time md)
        (process_large_image 512 (example_env 2)) = Inr 2
   \<and> process_large_image 512 (example_env 1) \<noteq> process_large_image 512 (example_env 2)"
proof -
  have a: "en_image (example_env 1) = en_image (example_env 2)"
    "en_image_id (example_env 1) = en_image_id (example_env 2)"
    by (simp_all add: example_env_def)
  have b: "map_sum id (\<lambda>(md, chunks_data). md_processing_time md)
        (process_large_image 512 (example_env 1)) = Inr 1"
    by code_simp
  have c: "map_sum id (\<lambda>(md, chunks_data). md_processing_time md)
        (process_large_image 512 (example_env 2)) = Inr 2"
    by code_simp
  from b c have "process_large_image 512 (example_env 1) \<noteq> process_large_image 512 (example_env 2)"
    by auto
  with a b c show ?thesis by blast
qed


section \<open>Chunk loading\<close>

lemma renderer_inv_initial: "renderer_inv initial_renderer"
  by (simp add: renderer_inv_def initial_renderer_def)

lemma renderer_inv_loadChunk:
  "renderer_inv r \<Longrightarrow> renderer_inv (loadChunk r chunk)"
  by (auto simp: renderer_inv_def loadChunk_def Let_def)

lemma renderer_inv_fold_loadChunk:
  "renderer_inv r \<Longrightarrow> renderer_inv (fold (\<lambda>chunk r'. loadChunk r' chunk) chunks r)"
  by (induction chunks arbitrary: r) (simp_all add: renderer_inv_loadChunk)

lemma renderer_inv_loadMissingChunks:
  "renderer_inv r \<Longrightarrow> renderer_inv (loadMissingChunks r chunks)"
  by (simp add: loadMissingChunks_def renderer_inv_fold_loadChunk)

lemma cache_has_update:
  "cache_has (AList.update key texture cache) key' = (key' = key \<or> cache_has cache key')"
  by (simp add: cache_has_def update_conv')

lemma renderer_inv_loadChunk_resume:
  assumes "renderer_inv r" and "loadChunk_resume r key outcome = Some (r', p)"
  shows "renderer_inv r'"
proof -
  from assms(2) have k: "key \<in> set (in_flight r)"
    by (auto simp: loadChunk_resume_def split: if_splits)
  from assms(1) have d: "distinct (in_flight r)" and l: "set (in_flight r) = loadingChunks r"
    and c: "\<forall>key\<in>loadingChunks r. \<not> cache_has (chunkCache r) key"
    by (simp_all add: renderer_inv_def)
  from d have s: "set (remove1 key (in_flight r)) = set (in_flight r) - {key}" by simp
  show ?thesis
    using assms(2) k d l c s
    by (cases outcome)
       (auto simp: loadChunk_resume_def renderer_inv_def Let_def cache_has_update)
qed

lemma renderer_inv_step:
  "renderer_inv r \<Longrightarrow> step r e = Some r' \<Longrightarrow> renderer_inv r'"
  by (cases e)
     (auto simp: renderer_inv_loadChunk renderer_inv_loadMissingChunks
           dest: renderer_inv_loadChunk_resume)

lemma renderer_inv_run:
  "renderer_inv r \<Longrightarrow> run r events = Some r' \<Longrightarrow> renderer_inv r'"
proof (induction events arbitrary: r)
  case Nil
  then show ?case by simp
next
  case (Cons e events)
  then show ?case
    by (auto split: option.splits dest: renderer_inv_step)
qed

lemma count_list_distinct:
  "distinct xs \<Longrightarrow> count_list xs x = (if x \<in> set xs then 1 else 0)"
  by (induction xs) auto

lemma loadChunk_twice: "loadChunk (loadChunk r chunk) chunk = loadChunk r chunk"
  by (simp add: loadChunk_def Let_def)

lemma fetched_loadChunk:
  "fetched (loadChunk r chunk) =
     (if cache_has (chunkCache r) (getChunkKey chunk) \<or> getChunkKey chunk \<in> loadingChunks r
      then fetched r else fetched r @ [getChunkKey chunk])"
  by (simp add: loadChunk_def Let_def)

lemma loadMissingChunks_twice:
  "loadMissingChunks r [chunk, chunk] = loadChunk r chunk"
  by (simp add: loadMissingChunks_def loadChunk_twice) (simp add: loadChunk_def Let_def)

text \<open>
  Claim C7. In every state the renderer reaches, at most one fetch per chunk key is in
  flight, and one is in flight exactly when the key is in \<^verbatim>\<open>loadingChunks\<close>. A
  request for a key that is cached or pending changes nothing and fetches nothing; two
  requests for the same key that is neither cached nor pending, made one after the other
  through \<^verbatim>\<open>loadChunk\<close> or together through \<^verbatim>\<open>loadMissingChunks\<close>, add exactly
  one fetch.
\<close>

theorem at_most_one_fetch_in_flight:
  assumes "run initial_renderer events = Some r"
  shows "fetches_in_flight r key \<le> 1
       \<and> (fetches_in_flight r key = 1) = (key \<in> loadingChunks r)
       \<and> (cache_has (chunkCache r) (getChunkKey chunk) \<or> getChunkKey chunk \<in> loadingChunks r
            \<longrightarrow> loadChunk r chunk = r \<and> loadMissingChunks r [chunk] = r)
       \<and> (\<not> cache_has (chunkCache r) (getChunkKey chunk) \<and> getChunkKey chunk \<notin> loadingChunks r
            \<longrightarrow> fetched (loadChunk (loadChunk r chunk) chunk) = fetched r @ [getChunkKey chunk]
              \<and> fetched (loadMissingChunks r [chunk, chunk]) = fetched r @ [getChunkKey chunk]
              \<and> fetches_in_flight (loadChunk (loadChunk r chunk) chunk) (getChunkKey chunk) = 1)"
proof -
  from assms have inv: "renderer_inv r"
    using renderer_inv_initial by (rule renderer_inv_run [rotated])
  then have d: "distinct (in_flight r)" and l: "set (in_flight r) = loadingChunks r"
    by (simp_all add: renderer_inv_def)
  have a: "fetches_in_flight r key \<le> 1"
    using d by (simp add: fetches_in_flight_def count_list_distinct)
  have b: "(fetches_in_flight r key = 1) = (key \<in> loadingChunks r)"
    using d l by (simp add: fetches_in_flight_def count_list_distinct)
  have c: "cache_has (chunkCache r) (getChunkKey chunk) \<or> getChunkKey chunk \<in> loadingChunks r
            \<longrightarrow> loadChunk r chunk = r \<and> loadMissingChunks r [chunk] = r"
    by (auto simp: loadChunk_def loadMissingChunks_def)
  have inv2: "renderer_inv (loadChunk r chunk)"
    using inv by (rule renderer_inv_loadChunk)
  have e: "\<not> cache_has (chunkCache r) (getChunkKey chunk) \<and> getChunkKey chunk \<notin> loadingChunks r
            \<longrightarrow> fetched (loadChunk (loadChunk r chunk) chunk) = fetched r @ [getChunkKey chunk]
              \<and> fetched (loadMissingChunks r [chunk, chunk]) = fetched r @ [getChunkKey chunk]
              \<and> fetches_in_flight (loadChunk (loadChunk r chunk) chunk) (getChunkKey chunk) = 1"
  proof (intro impI)
    assume n: "\<not> cache_has (chunkCache r) (getChunkKey chunk) \<and> getChunkKey chunk \<notin> loadingChunks r"
    have "distinct (in_flight (loadChunk r chunk))"
      using inv2 by (simp add: renderer_inv_def)
    moreover have "getChunkKey chunk \<in> set (in_flight (loadChunk r chunk))"
      using n by (simp add: loadChunk_def Let_def)
    ultimately have "fetches_in_flight (loadChunk r chunk) (getChunkKey chunk) = 1"
      by (simp add: fetches_in_flight_def count_list_distinct)
    with n show "fetched (loadChunk (loadChunk r chunk) chunk) = fetched r @ [getChunkKey chunk]
              \<and> fetched (loadMissingChunks r [chunk, chunk]) = fetched r @ [getChunkKey chunk]
              \<and> fetches_in_flight (loadChunk (loadChunk r chunk) chunk) (getChunkKey chunk) = 1"
      by (simp add: loadChunk_twice loadMissingChunks_twice fetched_loadChunk)
  qed
  from a b c e show ?thesis by blast
qed

lemma example_key: "getChunkKey example_chunk = ''0-1-2''"
  by code_simp

lemma example_run:
  "run initial_renderer example_events =
     Some \<lparr>chunkCache = [], loadingChunks = {''0-1-2''},
           fetched = [''0-1-2'', ''0-1-2''], in_flight = [''0-1-2'']\<rparr>"
  by (simp add: example_events_def initial_renderer_def loadChunk_def loadMissingChunks_def
        loadChunk_resume_def example_key cache_has_def Let_def)

theorem at_most_one_fetch_in_flight_witness:
  "run initial_renderer example_events =
     Some \<lparr>chunkCache = [], loadingChunks = {''0-1-2''},
           fetched = [''0-1-2'', ''0-1-2''], in_flight = [''0-1-2'']\<rparr>
   \<and> fetches_in_flight \<lparr>chunkCache = [], loadingChunks = {''0-1-2''},
           fetched = [''0-1-2'', ''0-1-2''], in_flight = [''0-1-2'']\<rparr> ''0-1-2'' = 1
   \<and> loadChunk \<lparr>chunkCache = [], loadingChunks = {''0-1-2''},
           fetched = [''0-1-2'', ''0-1-2''], in_flight = [''0-1-2'']\<rparr> example_chunk
      = \<lparr>chunkCache = [], loadingChunks = {''0-1-2''},
           fetched = [''0-1-2'', ''0-1-2''], in_flight = [''0-1-2'']\<rparr>
   \<and> run initial_renderer [] = Some initial_renderer
   \<and> fetched (loadChunk (loadChunk initial_renderer example_chunk) example_chunk) = [''0-1-2'']"
  using at_most_one_fetch_in_flight [OF example_run, of "''0-1-2''" example_chunk]
    at_most_one_fetch_in_flight [of "[]" initial_renderer "''0-1-2''" example_chunk]
  by (simp add: example_run example_key) (simp add: initial_renderer_def cache_has_def)

text \<open>
  Claim C8. When the pending load of a key fails (network, HTTP status or decoding),
  the promise of \<^verbatim>\<open>loadChunk\<close> is still fulfilled, the key leaves
  \<^verbatim>\<open>loadingChunks\<close>, it is not in the cache and nothing is in flight for it; the
  next request for the chunk issues a new fetch, and when that one succeeds the texture
  is cached under the key and the key is no longer loading.
\<close>

theorem failed_fetch_can_be_retried:
  assumes "run initial_renderer events = Some r"
    and "getChunkKey chunk \<in> loadingChunks r"
    and "is_failure outcome"
  shows "\<exists>r1 r2.
       loadChunk_resume r (getChunkKey chunk) outcome = Some (r1, Fulfilled)
     \<and> getChunkKey chunk \<notin> loadingChunks r1
     \<and> \<not> cache_has (chunkCache r1) (getChunkKey chunk)
     \<and> fetches_in_flight r1 (getChunkKey chunk) = 0
     \<and> fetched (loadChunk r1 chunk) = fetched r1 @ [getChunkKey chunk]
     \<and> getChunkKey chunk \<in> loadingChunks (loadChunk r1 chunk)
     \<and> loadChunk_resume (loadChunk r1 chunk) (getChunkKey chunk) (Loaded texture)
         = Some (r2, Fulfilled)
     \<and> map_of (chunkCache r2) (getChunkKey chunk) = Some texture
     \<and> getChunkKey chunk \<notin> loadingChunks r2
     \<and> fetches_in_flight r2 (getChunkKey chunk) = 0"
proof -
  let ?key = "getChunkKey chunk"
  from assms(1) have inv: "renderer_inv r"
    using renderer_inv_initial by (rule renderer_inv_run [rotated])
  then have d: "distinct (in_flight r)" and l: "set (in_flight r) = loadingChunks r"
    and c: "\<forall>key\<in>loadingChunks r. \<not> cache_has (chunkCache r) key"
    by (simp_all add: renderer_inv_def)
  define r1 where "r1 = r\<lparr>in_flight := remove1 ?key (in_flight r),
                          loadingChunks := loadingChunks r - {?key}\<rparr>"
  have res1: "loadChunk_resume r ?key outcome = Some (r1, Fulfilled)"
    using assms(2,3) l
    by (cases outcome) (simp_all add: loadChunk_resume_def r1_def is_failure_def Let_def)
  have inv1: "renderer_inv r1"
    using inv res1 by (rule renderer_inv_loadChunk_resume)
  have n1: "?key \<notin> loadingChunks r1" by (simp add: r1_def)
  have c1: "\<not> cache_has (chunkCache r1) ?key"
    using c assms(2) by (simp add: r1_def)
  have f1: "fetches_in_flight r1 ?key = 0"
    using d by (simp add: r1_def fetches_in_flight_def count_list_distinct)
  define q where "q = loadChunk r1 chunk"
  have q: "q = r1\<lparr>loadingChunks := insert ?key (loadingChunks r1),
                 fetched := fetched r1 @ [?key], in_flight := in_flight r1 @ [?key]\<rparr>"
    using n1 c1 by (simp add: q_def loadChunk_def Let_def)
  have invq: "renderer_inv q"
    unfolding q_def using inv1 by (rule renderer_inv_loadChunk)
  define r2 where "r2 = q\<lparr>in_flight := remove1 ?key (in_flight q),
                          chunkCache := AList.update ?key texture (chunkCache q),
                          loadingChunks := loadingChunks q - {?key}\<rparr>"
  have res2: "loadChunk_resume q ?key (Loaded texture) = Some (r2, Fulfilled)"
    by (simp add: loadChunk_resume_def r2_def Let_def q)
  have m2: "map_of (chunkCache r2) ?key = Some texture"
    by (simp add: r2_def update_conv')
  have n2: "?key \<notin> loadingChunks r2" by (simp add: r2_def)
  have "distinct (in_flight q)" using invq by (simp add: renderer_inv_def)
  then have f2: "fetches_in_flight r2 ?key = 0"
    by (simp add: r2_def fetches_in_flight_def count_list_distinct)
  have fq: "fetched q = fetched r1 @ [?key]" and lq: "?key \<in> loadingChunks q"
    by (simp_all add: q)
  from res1 n1 c1 f1 fq lq res2 m2 n2 f2 show ?thesis
    unfolding q_def by blast
qed


lemma example_run_one:
  "run initial_renderer [Call example_chunk] =
     Some \<lparr>chunkCache = [], loadingChunks = {''0-1-2''},
           fetched = [''0-1-2''], in_flight = [''0-1-2'']\<rparr>"
  by (simp add: initial_renderer_def loadChunk_def example_key cache_has_def Let_def)

theorem failed_fetch_can_be_retried_witness:
  "run initial_renderer [Call example_chunk] =
     Some \<lparr>chunkCache = [], loadingChunks = {''0-1-2''},
           fetched = [''0-1-2''], in_flight = [''0-1-2'']\<rparr>
   \<and> getChunkKey example_chunk \<in> loadingChunks \<lparr>chunkCache = [], loadingChunks = {''0-1-2''},
           fetched = [''0-1-2''], in_flight = [''0-1-2'']\<rparr>
   \<and> is_failure HttpError
   \<and> loadChunk_resume \<lparr>chunkCache = [], loadingChunks = {''0-1-2''},
           fetched = [''0-1-2''], in_flight = [''0-1-2'']\<rparr> ''0-1-2'' HttpError
       = Some (\<lparr>chunkCache = [], loadingChunks = {}, fetched = [''0-1-2''], in_flight = []\<rparr>,
               Fulfilled)
   \<and> loadChunk \<lparr>chunkCache = [], loadingChunks = {}, fetched = [''0-1-2''], in_flight = []\<rparr>
         example_chunk
       = \<lparr>chunkCache = [], loadingChunks = {''0-1-2''},
          fetched = [''0-1-2'', ''0-1-2''], in_flight = [''0-1-2'']\<rparr>
   \<and> loadChunk_resume \<lparr>chunkCache = [], loadingChunks = {''0-1-2''},
          fetched = [''0-1-2'', ''0-1-2''], in_flight = [''0-1-2'']\<rparr> ''0-1-2'' (Loaded 7)
       = Some (\<lparr>chunkCache = [(''0-1-2'', 7)], loadingChunks = {},
                fetched = [''0-1-2'', ''0-1-2''], in_flight = []\<rparr>, Fulfilled)"
proof -
  have f: "is_failure HttpError" by (simp add: is_failure_def)
  have k: "getChunkKey example_chunk \<in> loadingChunks \<lparr>chunkCache = [], loadingChunks = {''0-1-2''},
           fetched = [''0-1-2''], in_flight = [''0-1-2'']\<rparr>"
    by (simp add: example_key)
  from failed_fetch_can_be_retried [OF example_run_one k f, of 7] example_run_one k f
  show ?thesis
    by (simp add: example_key loadChunk_resume_def loadChunk_def cache_has_def Let_def)
qed

section \<open>Cache cleanup and drawing\<close>

lemma evict_one_absent:
  "map_of cache k = None \<Longrightarrow> evict_one k (atimes, cache, deleted) = (atimes, cache, deleted)"
  by (simp add: evict_one_def)

lemma evict_one_present:
  "map_of cache k = Some texture \<Longrightarrow>
     evict_one k (atimes, cache, deleted)
       = (AList.delete k atimes, AList.delete k cache, deleted @ [texture])"
  by (simp add: evict_one_def)

lemma keys_delete: "fst ` set (AList.delete k xs) = fst ` set xs - {k}"
  by (auto simp: AList.delete_eq)

lemma evict_loop_result:
  "fold evict_one ks (atimes, cache, deleted) = (atimes', cache', deleted') \<Longrightarrow>
     cache' = filter (\<lambda>p. fst p \<notin> set ks) cache
   \<and> atimes' = filter (\<lambda>p. fst p \<notin> set ks \<inter> fst ` set cache) atimes"
proof (induction ks arbitrary: atimes cache deleted)
  case Nil
  then show ?case by simp
next
  case (Cons k ks)
  show ?case
  proof (cases "map_of cache k")
    case None
    then have notin: "k \<notin> fst ` set cache" by (simp add: map_of_eq_None_iff)
    from Cons.prems None
    have "fold evict_one ks (atimes, cache, deleted) = (atimes', cache', deleted')"
      by (simp add: evict_one_absent)
    from Cons.IH [OF this]
    have c: "cache' = filter (\<lambda>p. fst p \<notin> set ks) cache"
      and a: "atimes' = filter (\<lambda>p. fst p \<notin> set ks \<inter> fst ` set cache) atimes"
      by simp_all
    have "filter (\<lambda>p. fst p \<notin> set ks) cache = filter (\<lambda>p. fst p \<notin> set (k # ks)) cache"
      using notin by (intro filter_cong) auto
    moreover have "filter (\<lambda>p. fst p \<notin> set ks \<inter> fst ` set cache) atimes
        = filter (\<lambda>p. fst p \<notin> set (k # ks) \<inter> fst ` set cache) atimes"
      using notin by (intro filter_cong) auto
    ultimately show ?thesis using c a by simp
  next
    case (Some texture)
    then have isin: "k \<in> fst ` set cache"
      by (metis map_of_eq_None_iff option.distinct(1))
    from Cons.prems Some
    have "fold evict_one ks (AList.delete k atimes, AList.delete k cache, deleted @ [texture])
        = (atimes', cache', deleted')"
      by (simp add: evict_one_present)
    from Cons.IH [OF this]
    have c: "cache' = filter (\<lambda>p. fst p \<notin> set ks) (AList.delete k cache)"
      and a: "atimes' = filter (\<lambda>p. fst p \<notin> set ks \<inter> fst ` set (AList.delete k cache))
                          (AList.delete k atimes)"
      by simp_all
    have keys: "fst ` set (AList.delete k cache) = fst ` set cache - {k}"
      by (rule keys_delete)
    have "filter (\<lambda>p. fst p \<notin> set ks) (AList.delete k cache)
        = filter (\<lambda>p. fst p \<notin> set (k # ks)) cache"
      by (simp add: AList.delete_eq) (intro filter_cong, auto)
    moreover have "filter (\<lambda>p. fst p \<notin> set ks \<inter> fst ` set (AList.delete k cache))
                          (AList.delete k atimes)
        = filter (\<lambda>p. fst p \<notin> set (k # ks) \<inter> fst ` set cache) atimes"
      using isin by (simp add: keys AList.delete_eq) (intro filter_cong, auto)
    ultimately show ?thesis using c a by simp
  qed
qed

lemma evict_loop_deleted:
  "distinct ks \<Longrightarrow> set ks \<subseteq> fst ` set cache \<Longrightarrow>
   fold evict_one ks (atimes, cache, deleted) = (atimes', cache', deleted') \<Longrightarrow>
     length deleted' = length deleted + length ks"
proof (induction ks arbitrary: atimes cache deleted)
  case Nil
  then show ?case by simp
next
  case (Cons k ks)
  from Cons.prems(2) have "k \<in> fst ` set cache" by simp
  then obtain texture where tex: "map_of cache k = Some texture"
    by (metis map_of_eq_None_iff not_Some_eq)
  from Cons.prems(1,2) have sub: "set ks \<subseteq> fst ` set (AList.delete k cache)"
    unfolding keys_delete by auto
  from Cons.prems(3) tex
  have "fold evict_one ks (AList.delete k atimes, AList.delete k cache, deleted @ [texture])
        = (atimes', cache', deleted')"
    by (simp add: evict_one_present)
  from Cons.IH [OF _ sub this] Cons.prems(1) show ?case by simp
qed

lemma length_filter_keys:
  assumes "distinct (map fst xs)" and "distinct ks" and "set ks \<subseteq> fst ` set xs"
  shows "length (filter (\<lambda>p. fst p \<notin> set ks) xs) = length xs - length ks"
proof -
  have "length (filter (\<lambda>p. fst p \<in> set ks) xs) = length (filter (\<lambda>k. k \<in> set ks) (map fst xs))"
    by (induction xs) simp_all
  also have "\<dots> = card (set (filter (\<lambda>k. k \<in> set ks) (map fst xs)))"
  proof -
    have "distinct (filter (\<lambda>k. k \<in> set ks) (map fst xs))"
      using assms(1) by (rule distinct_filter)
    then show ?thesis by (rule distinct_card [symmetric])
  qed
  also have "set (filter (\<lambda>k. k \<in> set ks) (map fst xs)) = set ks"
    using assms(3) by auto
  also have "card (set ks) = length ks"
    using assms(2) by (simp add: distinct_card)
  finally have "length (filter (\<lambda>p. fst p \<in> set ks) xs) = length ks" .
  moreover have "length (filter (\<lambda>p. fst p \<in> set ks) xs)
      + length (filter (\<lambda>p. fst p \<notin> set ks) xs) = length xs"
    using sum_length_filter_compl [of "\<lambda>p. fst p \<in> set ks" xs] by simp
  ultimately show ?thesis by simp
qed

lemma sorted_take_le_drop:
  assumes "sorted (map f xs)" and "x \<in> set (take m xs)" and "y \<in> set (drop m xs)"
  shows "f x \<le> f y"
proof -
  have "sorted (map f (take m xs) @ map f (drop m xs))"
    using assms(1) by (simp flip: map_append)
  with assms(2,3) show ?thesis
    by (auto simp: sorted_append)
qed

lemma same_keys_same_length:
  assumes "distinct (map fst xs)" and "distinct (map fst ys)"
    and "set (map fst xs) = set (map fst ys)"
  shows "length xs = length ys"
proof -
  have "length xs = card (set (map fst xs))"
    using assms(1) distinct_card [of "map fst xs"] by simp
  also have "\<dots> = card (set (map fst ys))" using assms(3) by simp
  also have "\<dots> = length ys"
    using assms(2) distinct_card [of "map fst ys"] by simp
  finally show ?thesis .
qed


text \<open>
  What one pass does once the size test lets it through, for a cache whose keys are
  exactly the keys with a recorded access time: it deletes \<open>floor(0.3 n)\<close> of the \<open>n\<close>
  entries, none of them touched later than an entry that stays.
\<close>

lemma cleanupCache_batch:
  assumes "distinct (map fst cache)"
    and "distinct (map fst (accessTimes mm))"
    and "set (map fst (accessTimes mm)) = set (map fst cache)"
    and "cleanupCache mm cache = (mm', cache', deleted)"
  shows "(currentCacheSize mm < maxCacheSize mm \<longrightarrow>
            mm' = mm \<and> cache' = cache \<and> deleted = [])
       \<and> (maxCacheSize mm \<le> currentCacheSize mm \<longrightarrow>
            length deleted = nat \<lfloor>real (length cache) * (3 / 10)\<rfloor>
          \<and> length cache' = length cache - nat \<lfloor>real (length cache) * (3 / 10)\<rfloor>
          \<and> set cache' \<subseteq> set cache
          \<and> accessTimes mm' = filter (\<lambda>p. fst p \<in> fst ` set cache') (accessTimes mm)
          \<and> currentCacheSize mm' = int (length cache') * 512 * 512 * 4
          \<and> (\<forall>(k, t)\<in>set (accessTimes mm). \<forall>(k', t')\<in>set (accessTimes mm).
                k \<notin> fst ` set cache' \<and> k' \<in> fst ` set cache' \<longrightarrow> t \<le> t'))"
proof (cases "currentCacheSize mm < maxCacheSize mm")
  case True
  with assms(4) show ?thesis by (simp add: cleanupCache_def)
next
  case False
  let ?n = "length cache"
  let ?m = "nat \<lfloor>real ?n * (3 / 10)\<rfloor>"
  let ?sorted = "sort_key snd (accessTimes mm)"
  let ?victims = "take ?m ?sorted"
  let ?ks = "map fst ?victims"
  obtain atimes where loop: "fold evict_one ?ks (accessTimes mm, cache, []) = (atimes, cache', deleted)"
    and mm': "mm' = recalculateCacheSize (mm\<lparr>accessTimes := atimes\<rparr>) cache'"
    using assms(4) False
    by (auto simp: cleanupCache_def Let_def split: prod.splits)
  have len: "length (accessTimes mm) = ?n"
    using assms(1,2,3) by (intro same_keys_same_length)
  have m_le: "?m \<le> ?n"
  proof -
    have "real ?n * (3 / 10) \<le> real ?n" by simp
    then have "\<lfloor>real ?n * (3 / 10)\<rfloor> \<le> int ?n" by (simp add: floor_le_iff)
    then show ?thesis by simp
  qed
  have dist_sorted: "distinct (map fst ?sorted)"
    using assms(2) by (simp add: distinct_map inj_on_def)
  have dist_ks: "distinct ?ks"
    using dist_sorted by (simp add: take_map [symmetric] del: take_map)
  have ks_sub: "set ?ks \<subseteq> fst ` set cache"
  proof -
    have "set ?victims \<subseteq> set (accessTimes mm)"
      using set_take_subset [of ?m ?sorted] by simp
    then have "set ?ks \<subseteq> set (map fst (accessTimes mm))" by auto
    with assms(3) show ?thesis by simp
  qed
  have len_ks: "length ?ks = ?m"
    using m_le len by simp
  from evict_loop_result [OF loop]
  have cache': "cache' = filter (\<lambda>p. fst p \<notin> set ?ks) cache"
    and atimes: "atimes = filter (\<lambda>p. fst p \<notin> set ?ks \<inter> fst ` set cache) (accessTimes mm)"
    by simp_all
  have keys_cache': "fst ` set cache' = fst ` set cache - set ?ks"
    unfolding cache' by auto
  have a: "length deleted = ?m"
    using evict_loop_deleted [OF dist_ks ks_sub loop] len_ks by simp
  have b: "length cache' = ?n - ?m"
    using length_filter_keys [OF assms(1) dist_ks ks_sub] len_ks cache' by simp
  have c: "set cache' \<subseteq> set cache"
    unfolding cache' by auto
  have d: "accessTimes mm' = filter (\<lambda>p. fst p \<in> fst ` set cache') (accessTimes mm)"
  proof -
    have "filter (\<lambda>p. fst p \<notin> set ?ks \<inter> fst ` set cache) (accessTimes mm)
        = filter (\<lambda>p. fst p \<in> fst ` set cache') (accessTimes mm)"
    proof (rule filter_cong [OF refl])
      fix p assume "p \<in> set (accessTimes mm)"
      then have "fst p \<in> fst ` set cache" using assms(3) by auto
      then show "(fst p \<notin> set ?ks \<inter> fst ` set cache) = (fst p \<in> fst ` set cache')"
        unfolding keys_cache' by blast
    qed
    with atimes mm' show ?thesis by (simp add: recalculateCacheSize_def)
  qed
  have e: "currentCacheSize mm' = int (length cache') * 512 * 512 * 4"
    using mm' by (simp add: recalculateCacheSize_def)
  have f: "t \<le> t'"
    if kt: "(k, t) \<in> set (accessTimes mm)" and kt': "(k', t') \<in> set (accessTimes mm)"
      and out: "k \<notin> fst ` set cache'" and inn: "k' \<in> fst ` set cache'"
    for k t k' t'
  proof -
    from kt assms(3) have "k \<in> fst ` set cache" by force
    with out have "k \<in> set ?ks" unfolding keys_cache' by simp
    then obtain t0 where t0: "(k, t0) \<in> set ?victims" by auto
    then have "(k, t0) \<in> set (accessTimes mm)"
      using set_take_subset [of ?m ?sorted] by auto
    with kt assms(2) have "t0 = t"
      by (meson eq_key_imp_eq_value)
    with t0 have v: "(k, t) \<in> set ?victims" by simp
    from inn have "k' \<notin> set ?ks" unfolding keys_cache' by simp
    then have "(k', t') \<notin> set ?victims" by force
    moreover from kt' have "(k', t') \<in> set (take ?m ?sorted @ drop ?m ?sorted)"
      by simp
    ultimately have w: "(k', t') \<in> set (drop ?m ?sorted)"
      by (simp only: set_append) blast
    have "sorted (map snd ?sorted)" by simp
    from sorted_take_le_drop [OF this v w] show ?thesis by simp
  qed
  have f': "\<forall>p\<in>set (accessTimes mm). \<forall>q\<in>set (accessTimes mm).
              fst p \<notin> fst ` set cache' \<and> fst q \<in> fst ` set cache' \<longrightarrow> snd p \<le> snd q"
  proof (intro ballI impI)
    fix p q
    assume "p \<in> set (accessTimes mm)" and "q \<in> set (accessTimes mm)"
      and "fst p \<notin> fst ` set cache' \<and> fst q \<in> fst ` set cache'"
    then show "snd p \<le> snd q"
      using f [of "fst p" "snd p" "fst q" "snd q"] by simp
  qed
  from False a b c d e f' show ?thesis by (simp add: split_def)
qed

lemma renderChunks_resident:
  "renderChunks levels cache chunks = (draws, err) \<Longrightarrow>
     (\<forall>d\<in>set draws. dc_chunk d \<in> set chunks
        \<and> map_of cache (getChunkKey (dc_chunk d)) = Some (dc_texture d))
   \<and> (err = None \<longrightarrow>
        map dc_chunk draws = filter (\<lambda>chunk. cache_has cache (getChunkKey chunk)) chunks)"
proof (induction chunks arbitrary: draws err)
  case Nil
  then show ?case by simp
next
  case (Cons chunk rest)
  show ?case
  proof (cases "map_of cache (getChunkKey chunk)")
    case None
    with Cons.prems have "renderChunks levels cache rest = (draws, err)" by simp
    from Cons.IH [OF this] None show ?thesis by (simp add: cache_has_def)
  next
    case (Some texture)
    show ?thesis
    proof (cases "level_at levels (ck_level chunk)")
      case None
      with Some Cons.prems show ?thesis by auto
    next
      case (Some levelData)
      obtain ds e where rest: "renderChunks levels cache rest = (ds, e)"
        by (cases "renderChunks levels cache rest")
      from Cons.IH [OF rest] \<open>map_of cache (getChunkKey chunk) = Some texture\<close> Some rest Cons.prems
      show ?thesis by (auto simp: cache_has_def Let_def)
    qed
  qed
qed

lemma pan_render_before:
  "map (\<lambda>d. (dc_chunk d, dc_texture d))
       (fst (renderChunks example_levels (cache_of [1..<11]) pan_chunks)) =
     [(\<lparr>ck_level = 0, ck_x = 1, ck_y = 0\<rparr>, 1), (\<lparr>ck_level = 0, ck_x = 2, ck_y = 0\<rparr>, 2),
      (\<lparr>ck_level = 0, ck_x = 1, ck_y = 1\<rparr>, 9), (\<lparr>ck_level = 0, ck_x = 2, ck_y = 1\<rparr>, 10)]"
  by code_simp

text \<open>
  A manager in use never gets past the size test: \<^verbatim>\<open>currentCacheSize\<close> starts at 0 and
  is written only by \<^verbatim>\<open>recalculateCacheSize\<close>, at the end of a pass that the size test
  has let through, so it stays 0 under the ceiling of 100 MiB and every pass returns at
  once.
\<close>

lemma cleanupCache_below_ceiling:
  "currentCacheSize mm < maxCacheSize mm \<Longrightarrow> cleanupCache mm cache = (mm, cache, [])"
  by (simp add: cleanupCache_def)

lemma manager_step_sizes:
  assumes "currentCacheSize mm = 0" and "maxCacheSize mm = 100 * 1024 * 1024"
  shows "currentCacheSize (manager_step mm call) = 0
       \<and> maxCacheSize (manager_step mm call) = 100 * 1024 * 1024"
proof (cases call)
  case (RecordAccess chunkKey now)
  with assms show ?thesis by (simp add: recordAccess_def)
next
  case (CleanupCache cache)
  from assms have "currentCacheSize mm < maxCacheSize mm" by simp
  then have "cleanupCache mm cache = (mm, cache, [])" by (rule cleanupCache_below_ceiling)
  with CleanupCache assms show ?thesis by simp
qed

lemma fold_manager_step_sizes:
  "currentCacheSize mm = 0 \<Longrightarrow> maxCacheSize mm = 100 * 1024 * 1024 \<Longrightarrow>
     currentCacheSize (fold (\<lambda>call mm. manager_step mm call) calls mm) = 0
   \<and> maxCacheSize (fold (\<lambda>call mm. manager_step mm call) calls mm) = 100 * 1024 * 1024"
proof (induction calls arbitrary: mm)
  case Nil
  then show ?case by simp
next
  case (Cons call calls)
  from manager_step_sizes [OF Cons.prems, of call] Cons.IH [of "manager_step mm call"]
  show ?case by simp
qed

lemma manager_after_sizes:
  "currentCacheSize (manager_after calls) = 0
   \<and> maxCacheSize (manager_after calls) = 100 * 1024 * 1024"
  unfolding manager_after_def
  by (rule fold_manager_step_sizes) (simp_all add: new_MemoryManager_def)

lemma cleanupCache_manager_after:
  "cleanupCache (manager_after calls) cache = (manager_after calls, cache, [])"
  using manager_after_sizes [of calls] by (intro cleanupCache_below_ceiling) simp

lemma request_below_ceiling:
  assumes "currentCacheSize mm = 0" and "maxCacheSize mm = 100 * 1024 * 1024"
  shows "request (key, texture, now) (mm, cache, evicted)
       = (recordAccess mm key now, AList.update key texture cache, evicted)"
proof -
  have "currentCacheSize (recordAccess mm key now) < maxCacheSize (recordAccess mm key now)"
    using assms by (simp add: recordAccess_def)
  then show ?thesis
    by (simp add: request_def cleanupCache_below_ceiling)
qed

lemma requests_below_ceiling:
  "currentCacheSize mm = 0 \<Longrightarrow> maxCacheSize mm = 100 * 1024 * 1024 \<Longrightarrow>
     snd (snd (requests reqs (mm, cache, evicted))) = evicted
   \<and> (\<forall>key. cache_has (fst (snd (requests reqs (mm, cache, evicted)))) key
        = (key \<in> fst ` set reqs \<or> cache_has cache key))"
proof (induction reqs arbitrary: mm cache)
  case Nil
  then show ?case by (simp add: requests_def)
next
  case (Cons req reqs)
  obtain key texture now where req: "req = (key, texture, now)" by (cases req)
  have sizes: "currentCacheSize (recordAccess mm key now) = 0"
    "maxCacheSize (recordAccess mm key now) = 100 * 1024 * 1024"
    using Cons.prems by (simp_all add: recordAccess_def)
  have step: "requests ((key, texture, now) # reqs) (mm, cache, evicted)
      = requests reqs (recordAccess mm key now, AList.update key texture cache, evicted)"
    using request_below_ceiling [OF Cons.prems] by (simp add: requests_def)
  from Cons.IH [OF sizes, of "AList.update key texture cache"] show ?case
    unfolding req step by (auto simp: cache_has_update)
qed

lemma row_req_distinct: "distinct (map (\<lambda>i. fst (row_req i)) [0..<101])"
  by code_simp

lemma cache_has_keys: "cache_has cache key = (key \<in> fst ` set cache)"
  by (simp add: cache_has_def map_of_eq_None_iff)

lemma request_distinct:
  assumes "currentCacheSize mm = 0" and "maxCacheSize mm = 100 * 1024 * 1024"
  shows "distinct (map fst cache) \<Longrightarrow>
     distinct (map fst (fst (snd (request req (mm, cache, evicted)))))"
proof -
  obtain key texture now where req: "req = (key, texture, now)" by (cases req)
  assume "distinct (map fst cache)"
  then show ?thesis
    unfolding req request_below_ceiling [OF assms] by (simp add: distinct_update)
qed

lemma requests_distinct:
  "currentCacheSize mm = 0 \<Longrightarrow> maxCacheSize mm = 100 * 1024 * 1024 \<Longrightarrow>
     distinct (map fst cache) \<Longrightarrow>
     distinct (map fst (fst (snd (requests reqs (mm, cache, evicted)))))"
proof (induction reqs arbitrary: mm cache)
  case Nil
  then show ?case by (simp add: requests_def)
next
  case (Cons req reqs)
  obtain key texture now where req: "req = (key, texture, now)" by (cases req)
  have sizes: "currentCacheSize (recordAccess mm key now) = 0"
    "maxCacheSize (recordAccess mm key now) = 100 * 1024 * 1024"
    using Cons.prems by (simp_all add: recordAccess_def)
  have step: "requests ((key, texture, now) # reqs) (mm, cache, evicted)
      = requests reqs (recordAccess mm key now, AList.update key texture cache, evicted)"
    using request_below_ceiling [OF Cons.prems(1,2)] by (simp add: requests_def)
  have "distinct (map fst (AList.update key texture cache))"
    using Cons.prems(3) by (simp add: distinct_update)
  from Cons.IH [OF sizes this] show ?case
    unfolding req step .
qed

lemma requests_fresh:
  "snd (snd (requests reqs (new_MemoryManager, [], []))) = []
   \<and> fst ` set (fst (snd (requests reqs (new_MemoryManager, [], [])))) = fst ` set reqs
   \<and> distinct (map fst (fst (snd (requests reqs (new_MemoryManager, [], [])))))"
proof -
  have s: "currentCacheSize new_MemoryManager = 0"
    "maxCacheSize new_MemoryManager = 100 * 1024 * 1024"
    by (simp_all add: new_MemoryManager_def)
  from requests_below_ceiling [OF s, of reqs "[]" "[]"]
  have a: "snd (snd (requests reqs (new_MemoryManager, [], []))) = []"
    and b: "\<And>key. cache_has (fst (snd (requests reqs (new_MemoryManager, [], [])))) key
        = (key \<in> fst ` set reqs)"
    by (simp_all add: cache_has_def)
  from b have "fst ` set (fst (snd (requests reqs (new_MemoryManager, [], [])))) = fst ` set reqs"
    unfolding cache_has_keys by blast
  moreover have "distinct (map fst (fst (snd (requests reqs (new_MemoryManager, [], [])))))"
    by (rule requests_distinct [OF s]) simp
  ultimately show ?thesis using a by simp
qed

lemma requests_fresh_length:
  "length (fst (snd (requests reqs (new_MemoryManager, [], [])))) = card (fst ` set reqs)"
proof -
  let ?cache = "fst (snd (requests reqs (new_MemoryManager, [], [])))"
  from requests_fresh [of reqs]
  have k: "fst ` set ?cache = fst ` set reqs" and d: "distinct (map fst ?cache)"
    by simp_all
  have "length ?cache = length (map fst ?cache)" by simp
  also have "\<dots> = card (set (map fst ?cache))" using d by (simp only: distinct_card)
  also have "\<dots> = card (fst ` set reqs)" using k by simp
  finally show ?thesis .
qed

text \<open>
  Claim C5. The ceiling of 100 MiB holds exactly 100 chunks of \<^verbatim>\<open>512 * 512 * 4\<close>
  bytes, and the claim asks for \<open>N - 100\<close> evictions over \<open>N\<close> distinct tiles, leaving
  100 resident. On the code no request sequence evicts anything, and the resident
  tiles are all the requested ones: after the 101 distinct tiles of one row, each stored, recorded
  and followed by an eviction pass, nothing has been evicted and 101 entries are
  resident; a pass handed the 101 entries directly deletes nothing either.
\<close>

theorem requests_never_evict:
  "maxCacheSize new_MemoryManager = ceiling_for 100
   \<and> snd (snd (requests reqs (new_MemoryManager, [], []))) = []
   \<and> fst ` set (fst (snd (requests reqs (new_MemoryManager, [], [])))) = fst ` set reqs
   \<and> length (fst (snd (requests reqs (new_MemoryManager, [], [])))) = card (fst ` set reqs)
   \<and> distinct (map (\<lambda>i. fst (row_req i)) [0..<101])
   \<and> snd (snd (requests (map row_req [0..<101]) (new_MemoryManager, [], []))) = []
   \<and> length (fst (snd (requests (map row_req [0..<101]) (new_MemoryManager, [], [])))) = 101
   \<and> snd (snd (cleanupCache
         (manager_after (map (\<lambda>i. RecordAccess (fst (row_req i)) (int i)) [0..<101]))
         (map (\<lambda>i. (fst (row_req i), i)) [0..<101]))) = []"
proof -
  have c: "maxCacheSize new_MemoryManager = ceiling_for 100"
    by (simp add: new_MemoryManager_def ceiling_for_def)
  have "card (fst ` set (map row_req [0..<101])) = card (set (map (\<lambda>i. fst (row_req i)) [0..<101]))"
    by (simp add: image_image)
  also have "\<dots> = length (map (\<lambda>i. fst (row_req i)) [0..<101])"
    using row_req_distinct by (rule distinct_card)
  also have "\<dots> = 101" by simp
  finally have n: "card (fst ` set (map row_req [0..<101])) = 101" .
  from requests_fresh_length [of "map row_req [0..<101]"] n
  have l: "length (fst (snd (requests (map row_req [0..<101]) (new_MemoryManager, [], [])))) = 101"
    by (simp only:)
  from requests_fresh [of "map row_req [0..<101]"]
  have e: "snd (snd (requests (map row_req [0..<101]) (new_MemoryManager, [], []))) = []"
    by (simp only:)
  from requests_fresh [of reqs]
  have g: "snd (snd (requests reqs (new_MemoryManager, [], []))) = []"
    and k: "fst ` set (fst (snd (requests reqs (new_MemoryManager, [], [])))) = fst ` set reqs"
    by (simp_all only:)
  have d: "snd (snd (cleanupCache
         (manager_after (map (\<lambda>i. RecordAccess (fst (row_req i)) (int i)) [0..<101]))
         (map (\<lambda>i. (fst (row_req i), i)) [0..<101]))) = []"
    by (simp only: cleanupCache_manager_after snd_conv)
  from c g k requests_fresh_length [of reqs] row_req_distinct e l d show ?thesis
    by (simp only: simp_thms)
qed

text \<open>
  Claim C6. In every state a manager reaches, an eviction pass returns the cache as it
  was handed over and deletes no texture, so no entry of the frame's chunk list is
  removed; and every tile that \<^verbatim>\<open>renderChunks\<close> draws from the cache left by the pass
  is a chunk of the frame's list, drawn with the texture the cache holds for its key,
  before and after the pass.
\<close>

theorem cleanupCache_keeps_drawn_tiles:
  "cleanupCache (manager_after calls) cache = (manager_after calls, cache, [])
   \<and> (\<forall>d\<in>set (fst (renderChunks levels (fst (snd (cleanupCache (manager_after calls) cache)))
                       chunks)).
        dc_chunk d \<in> set chunks
        \<and> map_of cache (getChunkKey (dc_chunk d)) = Some (dc_texture d)
        \<and> map_of (fst (snd (cleanupCache (manager_after calls) cache)))
             (getChunkKey (dc_chunk d)) = Some (dc_texture d))"
proof -
  have c: "cleanupCache (manager_after calls) cache = (manager_after calls, cache, [])"
    by (rule cleanupCache_manager_after)
  obtain draws err where r: "renderChunks levels cache chunks = (draws, err)"
    by (cases "renderChunks levels cache chunks")
  from renderChunks_resident [OF r]
  have "\<forall>d\<in>set draws. dc_chunk d \<in> set chunks
        \<and> map_of cache (getChunkKey (dc_chunk d)) = Some (dc_texture d)"
    by blast
  with c r show ?thesis by simp
qed

text \<open>
  A manager that has recorded ten tiles and run a pass, a cache of these ten tiles and
  the panned frame: the pass leaves the cache as it is and all four chunks of the frame
  are drawn with their textures.
\<close>

theorem cleanupCache_keeps_drawn_tiles_witness:
  "cleanupCache (manager_after (map (\<lambda>i. RecordAccess (fst (tile_req i)) (int i)) [1..<11]
                                @ [CleanupCache (cache_of [1..<11])])) (cache_of [1..<11])
     = (manager_after (map (\<lambda>i. RecordAccess (fst (tile_req i)) (int i)) [1..<11]
                       @ [CleanupCache (cache_of [1..<11])]), cache_of [1..<11], [])
   \<and> map (\<lambda>d. (dc_chunk d, dc_texture d))
       (fst (renderChunks example_levels
          (fst (snd (cleanupCache
             (manager_after (map (\<lambda>i. RecordAccess (fst (tile_req i)) (int i)) [1..<11]
                             @ [CleanupCache (cache_of [1..<11])])) (cache_of [1..<11]))))
          pan_chunks)) =
     [(\<lparr>ck_level = 0, ck_x = 1, ck_y = 0\<rparr>, 1), (\<lparr>ck_level = 0, ck_x = 2, ck_y = 0\<rparr>, 2),
      (\<lparr>ck_level = 0, ck_x = 1, ck_y = 1\<rparr>, 9), (\<lparr>ck_level = 0, ck_x = 2, ck_y = 1\<rparr>, 10)]
   \<and> map_of (cache_of [1..<11]) (getChunkKey \<lparr>ck_level = 0, ck_x = 2, ck_y = 1\<rparr>) = Some 10"
proof -
  let ?calls = "map (\<lambda>i. RecordAccess (fst (tile_req i)) (int i)) [1..<11]
                  @ [CleanupCache (cache_of [1..<11])]"
  note t = cleanupCache_keeps_drawn_tiles [of ?calls "cache_of [1..<11]" example_levels pan_chunks]
  from t have c: "cleanupCache (manager_after ?calls) (cache_of [1..<11])
      = (manager_after ?calls, cache_of [1..<11], [])"
    by (rule conjunct1)
  have m: "map_of (cache_of [1..<11]) (getChunkKey \<lparr>ck_level = 0, ck_x = 2, ck_y = 1\<rparr>) = Some 10"
    by code_simp
  from c pan_render_before m show ?thesis
    by (simp only: fst_conv snd_conv simp_thms)
qed


section \<open>Chunk prediction\<close>

lemma getChunksForPosition_members:
  assumes "0 < ps_zoom position" and "- 2 \<le> dx" and "dx \<le> 2" and "- 2 \<le> dy" and "dy \<le> 2"
  shows "\<exists>cs. getChunksForPosition log2 position = Some cs \<and> length cs = 25 \<and>
    (\<exists>c\<in>set cs.
       pc_level c = max 0 \<lfloor>- log2 (ps_zoom position)\<rfloor> \<and>
       pc_x c = \<lfloor>ps_x position / (512 * (1 / 2 ^ nat (max 0 \<lfloor>- log2 (ps_zoom position)\<rfloor>)))\<rfloor> + dx \<and>
       pc_y c = \<lfloor>ps_y position / (512 * (1 / 2 ^ nat (max 0 \<lfloor>- log2 (ps_zoom position)\<rfloor>)))\<rfloor> + dy)"
proof -
  have len: "length (concat (map (\<lambda>dy. map (g dy) [- 2..2::int]) [- 2..2::int])) = 25" for g :: "int \<Rightarrow> int \<Rightarrow> PredictedChunk"
    by (simp add: length_concat comp_def sum_list_triv del: upto_rec_numeral)
  show ?thesis
    using assms
    by (simp add: getChunksForPosition_def Let_def len del: length_concat upto_rec_numeral)
qed

text \<open>
  Claim C10. The claim asks that every predicted chunk is a valid tile identity. For a
  history resting at the origin at zoom 1 the predictor returns 25 chunks, among them
  the chunk at level 0 with \<open>x = -2\<close> and \<open>y = -2\<close>, which lies outside every grid.
\<close>

theorem predicted_chunk_outside_grid:
  "\<exists>cs. predictNextChunks log2_nearest latest_position resting_history = Some cs
     \<and> length cs = 25
     \<and> (\<exists>c\<in>set cs. pc_level c = 0 \<and> pc_x c = - 2 \<and> pc_y c = - 2
           \<and> \<not> valid_tile example_levels (pc_level c) (pc_x c) (pc_y c))"
proof -
  let ?p = "\<lparr>ps_x = 0, ps_y = 0, ps_zoom = 1\<rparr>"
  have p: "predictNextChunks log2_nearest latest_position resting_history
      = getChunksForPosition log2_nearest ?p"
    by (simp add: predictNextChunks_def resting_history_def latest_position_def)
  have l: "log2_nearest 1 = 0"
    by (simp add: log2_nearest_def nearest_double_def)
  from getChunksForPosition_members
    [where position = ?p and dx = "- 2" and dy = "- 2" and ?log2.0 = log2_nearest]
  obtain cs c where cs: "getChunksForPosition log2_nearest ?p = Some cs" "length cs = 25"
    and c: "c \<in> set cs" "pc_level c = 0" "pc_x c = - 2" "pc_y c = - 2"
    by (auto simp: l)
  have "\<not> valid_tile example_levels (pc_level c) (pc_x c) (pc_y c)"
    using c by (simp add: valid_tile_def level_at_def example_levels_def)
  with p cs c show ?thesis by auto
qed

end
